theory Spec2Isabelle
  imports Main "HOL-Library.AList"
begin

section \<open>Data model of \<open>src/index.tsx\<close>\<close>

text \<open>
  The field editor keeps an ordered list of links to entries. The interfaces of the source
  become records; values typed \<open>any\<close> in the source (the locale values of an entry's
  fields) become the datatype \<open>jv\<close>, which holds the shapes the code tells apart: \<open>null\<close>,
  strings, whole numbers, links, arrays, and with \<open>JOpaque\<close> every other object or function,
  such as a member of \<open>Object.prototype\<close>, named for reference.
\<close>

record Link =
  sys_id :: string
  sys_type :: string
  sys_linkType :: string

record LocalItem =
  uniqueId :: string
  link :: Link

datatype jv = JNull | JStr string | JNum int | JLink Link | JArr "jv list" | JOpaque string

text \<open>
  \<open>entry_fields\<close> is the source's \<open>fields\<close>, a \<open>Record<string, any>\<close>: field id to a
  locale-keyed object. Both levels are association lists, since \<open>Object.entries\<close> and
  \<open>Object.values\<close> walk the keys in insertion order. The version counters are the
  store's counts, whole numbers held in doubles.
\<close>

record Entry =
  entry_id :: string
  contentType_id :: string
  publishedVersion :: "int option"
  version :: int
  archivedVersion :: "int option"
  entry_fields :: "(string \<times> (string \<times> jv) list) list"

record ContentType =
  ct_id :: string
  ct_name :: string
  displayField :: string

record LinkedFromEntry =
  lf_entry :: Entry
  lf_fieldId :: string
  lf_locale :: string

datatype status = Archived | Published | Changed | Draft

datatype direction = Top | Bottom

record DropResult =
  source_index :: nat
  destination_index :: "nat option"

subsection \<open>Effects\<close>

text \<open>An awaited call of a collaborator either returns a value or rejects.\<close>

datatype 'a outcome = Returns 'a | Throws

text \<open>A step of a handler either completes with a value or raises to its caller.\<close>

datatype 'a res = Done 'a | Raised

datatype message =
    AllSelectedAlreadyAdded
  | MovedFrom jv jv
  | FailedToMove jv
  | AddedDuplicatesSkipped nat

datatype notification = Success message | Warning message | Error message

datatype logEntry =
    ErrorFetchingData
  | ErrorCheckingExistingLinks
  | ErrorRemovingLink
  | ErrorInAddExisting

text \<open>
  The collaborators behind the SDK. \<open>randomBase36 n\<close> is the text of the \<open>n\<close>-th
  \<open>Math.random().toString(36)\<close>. The calls made inside the two loops of
  \<open>onAddExisting\<close> are indexed by the iteration that makes them, so that a collaborator
  may answer each call differently.

  The objects the code indexes with ids and locale codes (\<open>contentTypes\<close>, \<open>entry.fields\<close>
  and its locale maps) are plain objects: a key they do not own is read from
  \<open>Object.prototype\<close>. What the runtime keeps there is a parameter as well:
  \<open>objectPrototypeKeys\<close> are the names of its members, each member an object or a function;
  \<open>builtinProperty k p\<close> is the outcome of reading property \<open>p\<close> of the member \<open>k\<close> (\<open>None\<close>
  for \<open>undefined\<close>), \<open>builtinEntries k\<close> is \<open>Object.entries\<close> of it, \<open>builtinAssignThrows k p\<close>
  says whether assigning to that property throws, \<open>inheritedSetter k\<close> whether assigning to
  the inherited key \<open>k\<close> of a plain object runs a setter instead of creating a property
  (as for \<open>__proto__\<close>), and \<open>propertyKeyOf v\<close> is the property key a value that is not a
  string is converted to.
\<close>

record env =
  randomBase36 :: "nat \<Rightarrow> string"
  entryGetMany :: "string list \<Rightarrow> Entry list outcome"
  contentTypeGetMany :: "string list \<Rightarrow> ContentType list outcome"
  contentTypeGet :: "string \<Rightarrow> ContentType outcome"
  selectMultipleEntries :: "Entry list option outcome"
  linksToEntry :: "nat \<Rightarrow> string \<Rightarrow> Entry list outcome"
  openConfirm :: "nat \<Rightarrow> bool outcome"
  entryGetThrows :: "nat \<Rightarrow> bool"
  entryUpdateThrows :: "nat \<Rightarrow> bool"
  setValueThrows :: "Link list \<Rightarrow> bool"
  currentEntryId :: string
  currentFieldId :: string
  fieldLocale :: string
  objectPrototypeKeys :: "string list"
  builtinProperty :: "string \<Rightarrow> string \<Rightarrow> jv option outcome"
  builtinEntries :: "string \<Rightarrow> (string \<times> jv) list"
  builtinAssignThrows :: "string \<Rightarrow> string \<Rightarrow> bool"
  inheritedSetter :: "string \<Rightarrow> bool"
  propertyKeyOf :: "jv \<Rightarrow> string"

text \<open>
  The state the handlers read and write: the React state of the component (\<open>items\<close>,
  \<open>entries\<close>, \<open>contentTypes\<close>, \<open>isLoading\<close>), the field value held by the host, the
  entries of the remote store, and what was sent to the notifier and to the console.
\<close>

record world =
  items :: "LocalItem list"
  entries :: "string \<rightharpoonup> Entry"
  contentTypes :: "string \<rightharpoonup> ContentType"
  isLoading :: bool
  fieldValue :: "Link list option"
  store :: "string \<rightharpoonup> Entry"
  notifications :: "notification list"
  console :: "logEntry list"
  randomCalls :: nat

definition notify :: "notification \<Rightarrow> world \<Rightarrow> world" where
  "notify n w = w\<lparr>notifications := notifications w @ [n]\<rparr>"

definition consoleError :: "logEntry \<Rightarrow> world \<Rightarrow> world" where
  "consoleError l w = w\<lparr>console := console w @ [l]\<rparr>"

section \<open>Local keys\<close>

text \<open>\<open>s.substring(2, 11)\<close>: the characters at positions 2 to 10, fewer if \<open>s\<close> is shorter.\<close>

definition substring_2_11 :: "string \<Rightarrow> string" where
  "substring_2_11 s = take 9 (drop 2 s)"

definition generateUniqueId :: "env \<Rightarrow> world \<Rightarrow> string \<times> world" where
  "generateUniqueId e w =
     (substring_2_11 (randomBase36 e (randomCalls w)), w\<lparr>randomCalls := Suc (randomCalls w)\<rparr>)"

text \<open>\<open>links.map(link => ({ uniqueId: generateUniqueId(), link }))\<close>\<close>

fun wrapLinks :: "env \<Rightarrow> Link list \<Rightarrow> world \<Rightarrow> LocalItem list \<times> world" where
  "wrapLinks e [] w = ([], w)"
| "wrapLinks e (l # ls) w =
     (let (k, w1) = generateUniqueId e w;
          (rest, w2) = wrapLinks e ls w1
      in (\<lparr>uniqueId = k, link = l\<rparr> # rest, w2))"

section \<open>Status and duplicates\<close>

text \<open>A number tested as a condition: \<open>undefined\<close> and \<open>0\<close> are falsy.\<close>

definition truthyNum :: "int option \<Rightarrow> bool" where
  "truthyNum v = (case v of None \<Rightarrow> False | Some n \<Rightarrow> n \<noteq> 0)"

text \<open>\<open>v && p(v)\<close> for an optional number \<open>v\<close>.\<close>

definition andNum :: "int option \<Rightarrow> (int \<Rightarrow> bool) \<Rightarrow> bool" where
  "andNum v p = (case v of None \<Rightarrow> False | Some n \<Rightarrow> n \<noteq> 0 \<and> p n)"

text \<open>
  \<open>n + 1\<close> as doubles compute it, for a whole number \<open>n\<close> that a double holds: exact below
  \<open>2 ^ 53\<close>; from there to \<open>2 ^ 54\<close> the doubles are the even numbers and the sum, halfway
  between two of them, goes to the one whose half is even; beyond, the sum rounds back to
  \<open>n\<close>.
\<close>

definition jsPlusOne :: "int \<Rightarrow> int" where
  "jsPlusOne n =
     (if - (2 ^ 53) \<le> n \<and> n < 2 ^ 53 then n + 1
      else if \<bar>n\<bar> < 2 ^ 54 then (if even (\<bar>n\<bar> div 2) then n else n + 2)
      else n)"

definition getEntryStatus :: "Entry \<Rightarrow> status" where
  "getEntryStatus entry =
     (if truthyNum (archivedVersion entry) then Archived
      else if andNum (publishedVersion entry) (\<lambda>pv. version entry = jsPlusOne pv) then Published
      else if andNum (publishedVersion entry) (\<lambda>pv. version entry > jsPlusOne pv) then Changed
      else Draft)"

text \<open>
  A counter as the store issues it: a positive whole number below \<open>2 ^ 53\<close>, the range in
  which doubles count exactly.
\<close>

definition storeCounter :: "int \<Rightarrow> bool" where
  "storeCounter n = (0 < n \<and> n < 2 ^ 53)"

text \<open>The body of the \<open>forEach\<close> of \<open>duplicateUniqueIds\<close>, on the pair \<open>(seen, duplicates)\<close>.\<close>

definition dupStep :: "LocalItem \<Rightarrow> string set \<times> string set \<Rightarrow> string set \<times> string set" where
  "dupStep item acc =
     (let entryId = sys_id (link item) in
      if entryId \<in> fst acc then (fst acc, insert (uniqueId item) (snd acc))
      else (insert entryId (fst acc), snd acc))"

definition duplicateUniqueIds :: "LocalItem list \<Rightarrow> string set" where
  "duplicateUniqueIds its = snd (fold dupStep its ({}, {}))"

text \<open>
  What the loop tests at position \<open>i\<close>, said without the loop: the target of the item is
  among the targets of the items before it.
\<close>

definition seenBefore :: "LocalItem list \<Rightarrow> nat \<Rightarrow> bool" where
  "seenBefore its i =
     (sys_id (link (its ! i)) \<in> set (map (\<lambda>x. sys_id (link x)) (take i its)))"

section \<open>The record cache\<close>

text \<open>\<open>Set.add\<close> on a set that \<open>Array.from\<close> later lists in insertion order.\<close>

definition addId :: "string \<Rightarrow> string list \<Rightarrow> string list" where
  "addId x xs = (if x \<in> set xs then xs else xs @ [x])"

text \<open>The body of the first \<open>forEach\<close> of \<open>fetchData\<close>, on \<open>(entriesMap, contentTypeIds)\<close>.\<close>

definition collectEntry ::
  "Entry \<Rightarrow> (string \<rightharpoonup> Entry) \<times> string list \<Rightarrow> (string \<rightharpoonup> Entry) \<times> string list" where
  "collectEntry entry acc =
     ((fst acc)(entry_id entry \<mapsto> entry), addId (contentType_id entry) (snd acc))"

definition collectContentType :: "ContentType \<Rightarrow> (string \<rightharpoonup> ContentType) \<Rightarrow> (string \<rightharpoonup> ContentType)" where
  "collectContentType ct m = m(ct_id ct \<mapsto> ct)"

text \<open>
  \<open>fetchData\<close>: \<open>try\<close> / \<open>catch\<close> / \<open>finally\<close>. A rejected lookup leaves the \<open>try\<close> block at
  that point; the \<open>finally\<close> clears the flag on every path but the early return.
\<close>

definition fetchData :: "env \<Rightarrow> Link list \<Rightarrow> world \<Rightarrow> world" where
  "fetchData e links w =
     (if links = [] then w
      else
        let w1 = w\<lparr>isLoading := True\<rparr>;
            ids = map sys_id links;
            w2 = (case entryGetMany e ids of
                    Throws \<Rightarrow> consoleError ErrorFetchingData w1
                  | Returns entriesResult \<Rightarrow>
                      let (entriesMap, contentTypeIds) =
                            fold collectEntry entriesResult (Map.empty, []);
                          w3 = w1\<lparr>entries := entriesMap\<rparr>
                      in (case contentTypeGetMany e contentTypeIds of
                            Throws \<Rightarrow> consoleError ErrorFetchingData w3
                          | Returns contentTypesResult \<Rightarrow>
                              w3\<lparr>contentTypes :=
                                   fold collectContentType contentTypesResult Map.empty\<rparr>))
        in w2\<lparr>isLoading := False\<rparr>)"

section \<open>The item store\<close>

text \<open>
  \<open>updateFieldValue\<close> sets the React state first and then awaits \<open>sdk.field.setValue\<close>,
  which may reject.
\<close>

definition updateFieldValue :: "env \<Rightarrow> LocalItem list \<Rightarrow> world \<Rightarrow> unit res \<times> world" where
  "updateFieldValue e newItems w =
     (let w1 = w\<lparr>items := newItems\<rparr>;
          links = map link newItems
      in if setValueThrows e links then (Raised, w1)
         else (Done (), w1\<lparr>fieldValue := Some links\<rparr>))"

text \<open>The callback given to \<open>sdk.field.onValueChanged\<close>; \<open>value || []\<close>.\<close>

definition onValueChanged :: "env \<Rightarrow> Link list option \<Rightarrow> world \<Rightarrow> world" where
  "onValueChanged e v w =
     (let newLinks = (case v of None \<Rightarrow> [] | Some ls \<Rightarrow> ls);
          (newItems, w1) = wrapLinks e newLinks w
      in fetchData e newLinks (w1\<lparr>items := newItems\<rparr>))"

definition onRemove :: "env \<Rightarrow> string \<Rightarrow> world \<Rightarrow> unit res \<times> world" where
  "onRemove e uid w = updateFieldValue e (filter (\<lambda>item. uniqueId item \<noteq> uid) (items w)) w"

text \<open>
  \<open>xs.splice(i, 1)\<close> returns the removed elements and leaves the rest in \<open>xs\<close>;
  \<open>xs.splice(i, 0, x)\<close> inserts \<open>x\<close> before position \<open>i\<close>, at the end when \<open>i\<close> is past it.
\<close>

definition splice1 :: "nat \<Rightarrow> 'a list \<Rightarrow> 'a list \<times> 'a list" where
  "splice1 i xs = (take 1 (drop i xs), take i xs @ drop (Suc i) xs)"

definition spliceIn :: "nat \<Rightarrow> 'a \<Rightarrow> 'a list \<Rightarrow> 'a list" where
  "spliceIn i x xs = take i xs @ x # drop i xs"

text \<open>
  \<open>onMove\<close> and \<open>onDragEnd\<close> destructure the first removed element. With an index past the
  end nothing is removed, the element is \<open>undefined\<close>, and \<open>updateFieldValue\<close> raises a
  TypeError when it reads \<open>item.link\<close> of it: that path is \<open>Raised\<close> here, with the state
  the handler started in (the list with the \<open>undefined\<close> slot that \<open>setItems\<close> was given has
  no counterpart among the lists of items). The menu and the drag library only pass the
  indices of items that are shown.
\<close>

definition onMove :: "env \<Rightarrow> nat \<Rightarrow> direction \<Rightarrow> world \<Rightarrow> unit res \<times> world" where
  "onMove e index dir w =
     (let (removed, newItems) = splice1 index (items w) in
      case removed of
        [] \<Rightarrow> (Raised, w)
      | movedItem # _ \<Rightarrow>
          (case dir of
             Top \<Rightarrow> updateFieldValue e (movedItem # newItems) w
           | Bottom \<Rightarrow> updateFieldValue e (newItems @ [movedItem]) w))"

definition onDragEnd :: "env \<Rightarrow> DropResult \<Rightarrow> world \<Rightarrow> unit res \<times> world" where
  "onDragEnd e result w =
     (case destination_index result of
        None \<Rightarrow> (Done (), w)
      | Some dest \<Rightarrow>
          (let (removed, newItems) = splice1 (source_index result) (items w) in
           case removed of
             [] \<Rightarrow> (Raised, w)
           | reorderedItem # _ \<Rightarrow> updateFieldValue e (spliceIn dest reorderedItem newItems) w))"

section \<open>The conflict resolver\<close>

text \<open>
  A value of type \<open>any\<close> tested as a condition: \<open>null\<close>, the empty string and 0 are falsy.
\<close>

definition truthy :: "jv \<Rightarrow> bool" where
  "truthy v =
     (case v of
        JNull \<Rightarrow> False
      | JStr s \<Rightarrow> s \<noteq> []
      | JNum n \<Rightarrow> n \<noteq> 0
      | JLink _ \<Rightarrow> True
      | JArr _ \<Rightarrow> True
      | JOpaque _ \<Rightarrow> True)"

text \<open>A looked-up value that may be \<open>undefined\<close>, kept only when it is truthy.\<close>

definition whenTruthy :: "jv option \<Rightarrow> jv option" where
  "whenTruthy v = (case v of None \<Rightarrow> None | Some x \<Rightarrow> if truthy x then Some x else None)"

text \<open>\<open>Array.isArray(value) ? value : [value]\<close>\<close>

definition asArray :: "jv \<Rightarrow> jv list" where
  "asArray v = (case v of JArr xs \<Rightarrow> xs | _ \<Rightarrow> [v])"

text \<open>
  \<open>link?.sys?.type === 'Link' && link?.sys?.linkType === 'Entry' && link?.sys?.id === target\<close>
\<close>

definition isEntryLinkTo :: "string \<Rightarrow> jv \<Rightarrow> bool" where
  "isEntryLinkTo target v =
     (case v of
        JLink l \<Rightarrow> sys_type l = ''Link'' \<and> sys_linkType l = ''Entry'' \<and> sys_id l = target
      | _ \<Rightarrow> False)"

text \<open>
  \<open>obj[key]\<close> on a plain object: the object's own property, else the member of
  \<open>Object.prototype\<close> of that name, else \<open>undefined\<close>.
\<close>

datatype 'a lookup = Own 'a | Inherited | Undefined

definition getProp :: "env \<Rightarrow> (string \<rightharpoonup> 'a) \<Rightarrow> string \<Rightarrow> 'a lookup" where
  "getProp e obj key =
     (case obj key of
        Some v \<Rightarrow> Own v
      | None \<Rightarrow> if key \<in> set (objectPrototypeKeys e) then Inherited else Undefined)"

text \<open>\<open>locales[locale]\<close> as a value: an inherited member is an object or a function.\<close>

definition localeValueOf :: "env \<Rightarrow> (string \<times> jv) list \<Rightarrow> string \<Rightarrow> jv option" where
  "localeValueOf e locales locale =
     (case getProp e (map_of locales) locale of
        Own v \<Rightarrow> Some v
      | Inherited \<Rightarrow> Some (JOpaque locale)
      | Undefined \<Rightarrow> None)"



text \<open>
  \<open>getEntryTitle\<close> from the point where the display field is known, \<open>key\<close> being the
  property key that \<open>displayField\<close> is read as. A throw is caught and gives 'Untitled'.
\<close>

definition titleIn :: "env \<Rightarrow> Entry \<Rightarrow> string \<Rightarrow> jv" where
  "titleIn e entry key =
     (case getProp e (map_of (entry_fields entry)) key of
        Undefined \<Rightarrow> JStr ''Untitled''
      | Own locales \<Rightarrow>
          (case whenTruthy (localeValueOf e locales (fieldLocale e)) of
             Some localeValue \<Rightarrow> localeValue
           | None \<Rightarrow>
               (case whenTruthy (case locales of [] \<Rightarrow> None | kv # _ \<Rightarrow> Some (snd kv)) of
                  Some firstValue \<Rightarrow> firstValue
                | None \<Rightarrow> JStr ''Untitled''))
      | Inherited \<Rightarrow>
          (case builtinProperty e key (fieldLocale e) of
             Throws \<Rightarrow> JStr ''Untitled''
           | Returns v \<Rightarrow>
               (case whenTruthy v of
                  Some localeValue \<Rightarrow> localeValue
                | None \<Rightarrow>
                    (case whenTruthy (case builtinEntries e key of
                                        [] \<Rightarrow> None
                                      | kv # _ \<Rightarrow> Some (snd kv)) of
                       Some firstValue \<Rightarrow> firstValue
                     | None \<Rightarrow> JStr ''Untitled''))))"

text \<open>
  \<open>getEntryTitle\<close>: \<open>contentTypes[contentTypeId] || await sdk.cma.contentType.get(...)\<close>.
  An id that names a member of \<open>Object.prototype\<close> and is not cached gives that member,
  and the content type is not fetched; \<open>displayField\<close> is then a property of the member.
\<close>

definition getEntryTitle :: "env \<Rightarrow> world \<Rightarrow> Entry \<Rightarrow> jv" where
  "getEntryTitle e w entry =
     (let contentTypeId = contentType_id entry in
      case getProp e (contentTypes w) contentTypeId of
        Own ct \<Rightarrow> titleIn e entry (displayField ct)
      | Inherited \<Rightarrow>
          (case builtinProperty e contentTypeId ''displayField'' of
             Throws \<Rightarrow> JStr ''Untitled''
           | Returns None \<Rightarrow> titleIn e entry ''undefined''
           | Returns (Some (JStr s)) \<Rightarrow> titleIn e entry s
           | Returns (Some v) \<Rightarrow> titleIn e entry (propertyKeyOf e v))
      | Undefined \<Rightarrow>
          (case contentTypeGet e contentTypeId of
             Throws \<Rightarrow> JStr ''Untitled''
           | Returns ct \<Rightarrow> titleIn e entry (displayField ct)))"

text \<open>
  The inner loops of \<open>findExistingLinks\<close> for one entry of the query's result. When the
  field is not the entry's own and names a member of \<open>Object.prototype\<close>, the loop runs
  over the entries of that member.
\<close>

definition linkedFromOf :: "env \<Rightarrow> string \<Rightarrow> Entry \<Rightarrow> LinkedFromEntry list" where
  "linkedFromOf e entryId entry =
     (if entry_id entry = currentEntryId e then []
      else
        case (case getProp e (map_of (entry_fields entry)) (currentFieldId e) of
                Undefined \<Rightarrow> None
              | Own fv \<Rightarrow> Some fv
              | Inherited \<Rightarrow> Some (builtinEntries e (currentFieldId e))) of
          None \<Rightarrow> []
        | Some fv \<Rightarrow>
            map (\<lambda>kv. \<lparr>lf_entry = entry, lf_fieldId = currentFieldId e, lf_locale = fst kv\<rparr>)
              (filter (\<lambda>kv. list_ex (isEntryLinkTo entryId) (asArray (snd kv))) fv))"

definition findExistingLinks ::
  "env \<Rightarrow> nat \<Rightarrow> string \<Rightarrow> world \<Rightarrow> LinkedFromEntry list \<times> world" where
  "findExistingLinks e k entryId w =
     (case linksToEntry e k entryId of
        Throws \<Rightarrow> ([], consoleError ErrorCheckingExistingLinks w)
      | Returns result \<Rightarrow> (concat (map (linkedFromOf e entryId) result), w))"

text \<open>
  \<open>removeLinkFromEntry\<close>: \<open>sdk.cma.entry.get\<close> rejects when the collaborator fails or the
  entry does not exist; the fetched copy is changed locally and the store only by a
  successful \<open>sdk.cma.entry.update\<close>. Where the field is the entry's own, the assignment
  replaces or creates the property of the locale, unless the locale is inherited with a
  setter. Where the field is read from \<open>Object.prototype\<close>, reading and assigning act on
  that member and the entry is sent back as it was fetched.
\<close>

definition removeLinkFromEntry ::
  "env \<Rightarrow> nat \<Rightarrow> string \<Rightarrow> string \<Rightarrow> string \<Rightarrow> string \<Rightarrow> world \<Rightarrow> bool \<times> world" where
  "removeLinkFromEntry e k sourceEntryId fieldId locale targetEntryId w =
     (if entryGetThrows e k then (False, consoleError ErrorRemovingLink w)
      else
        case store w sourceEntryId of
          None \<Rightarrow> (False, consoleError ErrorRemovingLink w)
        | Some entry \<Rightarrow>
            (case getProp e (map_of (entry_fields entry)) fieldId of
               Undefined \<Rightarrow> (False, w)
             | Inherited \<Rightarrow>
                 (case builtinProperty e fieldId locale of
                    Throws \<Rightarrow> (False, consoleError ErrorRemovingLink w)
                  | Returns v \<Rightarrow>
                      (case whenTruthy v of
                         None \<Rightarrow> (False, w)
                       | Some fv \<Rightarrow>
                           if builtinAssignThrows e fieldId locale
                             then (False, consoleError ErrorRemovingLink w)
                           else if entryUpdateThrows e k
                             then (False, consoleError ErrorRemovingLink w)
                           else (True, w\<lparr>store := (store w)(sourceEntryId \<mapsto> entry)\<rparr>)))
             | Own locales \<Rightarrow>
                 (case whenTruthy (localeValueOf e locales locale) of
                    None \<Rightarrow> (False, w)
                  | Some fv \<Rightarrow>
                      let links = asArray fv;
                          kept = JArr (filter (\<lambda>l. \<not> isEntryLinkTo targetEntryId l) links);
                          entry' =
                            (if map_of locales locale = None \<and> inheritedSetter e locale
                             then entry
                             else entry\<lparr>entry_fields :=
                                    AList.update fieldId (AList.update locale kept locales)
                                      (entry_fields entry)\<rparr>)
                      in if entryUpdateThrows e k then (False, consoleError ErrorRemovingLink w)
                         else (True, w\<lparr>store := (store w)(sourceEntryId \<mapsto> entry')\<rparr>))))"

text \<open>
  The first loop of \<open>onAddExisting\<close>: each new entry goes to \<open>entriesToMove\<close>, with the
  first of its existing links, or to \<open>entriesToAdd\<close>.
\<close>

fun classify ::
  "env \<Rightarrow> nat \<Rightarrow> Entry list \<Rightarrow> Entry list \<times> (Entry \<times> LinkedFromEntry) list \<Rightarrow> world \<Rightarrow>
   (Entry list \<times> (Entry \<times> LinkedFromEntry) list) \<times> world" where
  "classify e k [] acc w = (acc, w)"
| "classify e k (entry # rest) acc w =
     (let (existingLinks, w1) = findExistingLinks e k (entry_id entry) w in
      case existingLinks of
        first # _ \<Rightarrow> classify e (Suc k) rest (fst acc, snd acc @ [(entry, first)]) w1
      | [] \<Rightarrow> classify e (Suc k) rest (fst acc @ [entry], snd acc) w1)"

text \<open>
  The second loop: one confirmation dialog per entry to move. \<open>sdk.dialogs.openConfirm\<close> is
  awaited directly in the loop body, so its rejection leaves the loop.
\<close>

fun moveLoop ::
  "env \<Rightarrow> nat \<Rightarrow> (Entry \<times> LinkedFromEntry) list \<Rightarrow> Entry list \<Rightarrow> world \<Rightarrow>
   Entry list res \<times> world" where
  "moveLoop e k [] entriesToAdd w = (Done entriesToAdd, w)"
| "moveLoop e k (m # rest) entriesToAdd w =
     (let entry = fst m;
          linkedFrom = snd m;
          entryTitle = getEntryTitle e w entry;
          sourceEntryTitle = getEntryTitle e w (lf_entry linkedFrom)
      in case openConfirm e k of
           Throws \<Rightarrow> (Raised, w)
         | Returns confirmed \<Rightarrow>
             if confirmed then
               (let (removed, w1) =
                      removeLinkFromEntry e k (entry_id (lf_entry linkedFrom))
                        (lf_fieldId linkedFrom) (lf_locale linkedFrom) (entry_id entry) w
                in if removed then
                     moveLoop e (Suc k) rest (entriesToAdd @ [entry])
                       (notify (Success (MovedFrom entryTitle sourceEntryTitle)) w1)
                   else
                     moveLoop e (Suc k) rest entriesToAdd
                       (notify (Error (FailedToMove entryTitle)) w1))
             else moveLoop e (Suc k) rest entriesToAdd w)"

definition linkTo :: "Entry \<Rightarrow> Link" where
  "linkTo entry = \<lparr>sys_id = entry_id entry, sys_type = ''Link'', sys_linkType = ''Entry''\<rparr>"

text \<open>
  The body of the \<open>try\<close> of \<open>onAddExisting\<close>. \<open>items\<close> is the list the handler closed over,
  the one of the state it starts in. The content types allowed by the field's validations
  only become an option of the picker, whose answer is \<open>selectMultipleEntries\<close>.
\<close>

text \<open>\<open>selectedEntries.filter((entry) => !currentIds.has(entry.sys.id))\<close>\<close>

definition newEntriesOf :: "world \<Rightarrow> Entry list \<Rightarrow> Entry list" where
  "newEntriesOf w selectedEntries =
     (let currentIds = set (map (\<lambda>item. sys_id (link item)) (items w)) in
      filter (\<lambda>entry. entry_id entry \<notin> currentIds) selectedEntries)"

definition addExistingBody :: "env \<Rightarrow> world \<Rightarrow> unit res \<times> world" where
  "addExistingBody e w =
     (case selectMultipleEntries e of
        Throws \<Rightarrow> (Raised, w)
      | Returns None \<Rightarrow> (Done (), w)
      | Returns (Some selectedEntries) \<Rightarrow>
          (let newEntries = newEntriesOf w selectedEntries in
           if newEntries = [] \<and> selectedEntries \<noteq> [] then
             (Done (), notify (Warning AllSelectedAlreadyAdded) w)
           else
             (let (queues, w1) = classify e 0 newEntries ([], []) w;
                  entriesToMove = snd queues
              in case moveLoop e 0 entriesToMove (fst queues) w1 of
                   (Raised, w2) \<Rightarrow> (Raised, w2)
                 | (Done entriesToAdd, w2) \<Rightarrow>
                     (if entriesToAdd = [] then (Done (), w2)
                      else
                        (let (newLocalItems, w3) = wrapLinks e (map linkTo entriesToAdd) w2;
                             updatedItems = items w @ newLocalItems
                         in (case updateFieldValue e updatedItems w3 of
                               (Raised, w4) \<Rightarrow> (Raised, w4)
                             | (Done u, w4) \<Rightarrow>
                                 (if length entriesToAdd < length selectedEntries
                                     \<and> entriesToMove = []
                                  then (Done (),
                                        notify (Success (AddedDuplicatesSkipped
                                                  (length entriesToAdd))) w4)
                                  else (Done (), w4))))))))"

text \<open>The \<open>catch\<close> of \<open>onAddExisting\<close> logs the error; the handler itself never raises.\<close>

definition onAddExisting :: "env \<Rightarrow> world \<Rightarrow> world" where
  "onAddExisting e w =
     (case addExistingBody e w of
        (Raised, w') \<Rightarrow> consoleError ErrorInAddExisting w'
      | (Done u, w') \<Rightarrow> w')"

section \<open>Example inputs\<close>

text \<open>Concrete items, entries, collaborators and states on which the results are evaluated.\<close>

definition exLink :: "string \<Rightarrow> Link" where
  "exLink i = \<lparr>sys_id = i, sys_type = ''Link'', sys_linkType = ''Entry''\<rparr>"

definition exItem :: "string \<Rightarrow> string \<Rightarrow> LocalItem" where
  "exItem k i = \<lparr>uniqueId = k, link = exLink i\<rparr>"

definition exEntry :: "string \<Rightarrow> (string \<times> (string \<times> jv) list) list \<Rightarrow> Entry" where
  "exEntry i fs = \<lparr>entry_id = i, contentType_id = ''page'', publishedVersion = None,
     version = 1, archivedVersion = None, entry_fields = fs\<rparr>"

definition exEntryArchivedZero :: Entry where
  "exEntryArchivedZero = (exEntry ''e1'' [])\<lparr>archivedVersion := Some 0\<rparr>"

definition exItems :: "LocalItem list" where
  "exItems = [exItem ''k1'' ''a'', exItem ''k2'' ''b'', exItem ''k3'' ''a'']"

text \<open>
  Collaborators that all succeed: the picker is cancelled, no entry links to any other,
  every dialog is confirmed, every content type shows the field \<open>title\<close>, the \<open>n\<close>-th
  random text is \<open>0.k\<close> followed by \<open>n\<close> times \<open>x\<close>, and \<open>Object.prototype\<close> has its
  standard members, none of them with a property that is read here.
\<close>

definition exEnv :: env where
  "exEnv = \<lparr>randomBase36 = (\<lambda>n. ''0.k'' @ replicate n (CHR ''x'')),
     entryGetMany = (\<lambda>ids. Returns []),
     contentTypeGetMany = (\<lambda>ids. Returns []),
     contentTypeGet = (\<lambda>i. Returns \<lparr>ct_id = i, ct_name = ''Page'', displayField = ''title''\<rparr>),
     selectMultipleEntries = Returns None,
     linksToEntry = (\<lambda>k i. Returns []),
     openConfirm = (\<lambda>k. Returns True),
     entryGetThrows = (\<lambda>k. False),
     entryUpdateThrows = (\<lambda>k. False),
     setValueThrows = (\<lambda>ls. False),
     currentEntryId = ''current'',
     currentFieldId = ''children'',
     fieldLocale = ''en-US'',
     objectPrototypeKeys = [''constructor'', ''__defineGetter__'', ''__defineSetter__'',
       ''hasOwnProperty'', ''__lookupGetter__'', ''__lookupSetter__'', ''isPrototypeOf'',
       ''propertyIsEnumerable'', ''toString'', ''valueOf'', ''__proto__'', ''toLocaleString''],
     builtinProperty = (\<lambda>k p. Returns None),
     builtinEntries = (\<lambda>k. []),
     builtinAssignThrows = (\<lambda>k p. False),
     inheritedSetter = (\<lambda>k. k = ''__proto__''),
     propertyKeyOf = (\<lambda>v. ''[object Object]'')\<rparr>"

definition exWorld :: "LocalItem list \<Rightarrow> world" where
  "exWorld its = \<lparr>items = its, entries = Map.empty, contentTypes = Map.empty,
     isLoading = False, fieldValue = Some (map link its), store = Map.empty,
     notifications = [], console = [], randomCalls = 0\<rparr>"

text \<open>A state with one cached record, and collaborators whose lookups fail.\<close>

definition exWorldCached :: world where
  "exWorldCached = (exWorld [exItem ''k1'' ''new''])\<lparr>entries := [''old'' \<mapsto> exEntry ''old'' []]\<rparr>"

definition exEnvTypeLookupFails :: env where
  "exEnvTypeLookupFails = exEnv\<lparr>entryGetMany := (\<lambda>ids. Returns [exEntry ''new'' []]),
     contentTypeGetMany := (\<lambda>ids. Throws)\<rparr>"

definition exEnvEntryLookupFails :: env where
  "exEnvEntryLookupFails = exEnv\<lparr>entryGetMany := (\<lambda>ids. Throws)\<rparr>"

definition exContentType :: ContentType where
  "exContentType = \<lparr>ct_id = ''page'', ct_name = ''Page'', displayField = ''title''\<rparr>"

definition exEnvLookupsSucceed :: env where
  "exEnvLookupsSucceed = exEnv\<lparr>entryGetMany := (\<lambda>ids. Returns [exEntry ''new'' []]),
     contentTypeGetMany := (\<lambda>ids. Returns [exContentType])\<rparr>"

text \<open>
  The texts of the neighbouring doubles 0.123456789 and 0.12345678900000001 in base 36,
  in their shortest form: the expansions of the two numbers agree on the nine digits after
  the point, so the texts differ only after the characters the key is cut from.
\<close>

definition exEnvCloseRandom :: env where
  "exEnvCloseRandom =
     exEnv\<lparr>randomBase36 := (\<lambda>n. if n = 0 then ''0.4fzzzxjylrx'' else ''0.4fzzzxjyls'')\<rparr>"

text \<open>
  A parent entry \<open>p\<close> whose field \<open>children\<close> links to \<open>c\<close> and \<open>d\<close> in the locale \<open>en-US\<close>,
  the entry \<open>c\<close> itself, and an entry \<open>f\<close> that nothing links to. The picker returns the
  given entries, and the query for the entries that link to \<open>c\<close> returns \<open>p\<close>.
\<close>

definition exParent :: Entry where
  "exParent = exEntry ''p''
     [(''children'', [(''en-US'', JArr [JLink (exLink ''c''), JLink (exLink ''d'')])])]"

definition exChild :: Entry where
  "exChild = exEntry ''c'' [(''title'', [(''en-US'', JStr ''Child'')])]"

definition exFree :: Entry where
  "exFree = exEntry ''f'' []"

definition exLinkedFrom :: LinkedFromEntry where
  "exLinkedFrom = \<lparr>lf_entry = exParent, lf_fieldId = ''children'', lf_locale = ''en-US''\<rparr>"

definition exEnvPick :: "Entry list \<Rightarrow> env" where
  "exEnvPick sel = exEnv\<lparr>selectMultipleEntries := Returns (Some sel),
     linksToEntry := (\<lambda>k i. if i = ''c'' then Returns [exParent] else Returns [])\<rparr>"

definition exWorldStore :: world where
  "exWorldStore = (exWorld [exItem ''k0'' ''a''])\<lparr>store := [''p'' \<mapsto> exParent]\<rparr>"

definition exParentAfterMove :: Entry where
  "exParentAfterMove = exEntry ''p'' [(''children'', [(''en-US'', JArr [JLink (exLink ''d'')])])]"

definition exEnvUpdateFails :: env where
  "exEnvUpdateFails = (exEnvPick [exChild])\<lparr>entryUpdateThrows := (\<lambda>k. True)\<rparr>"

definition exEnvDialogThrows :: env where
  "exEnvDialogThrows = (exEnvPick [exFree, exChild])\<lparr>openConfirm := (\<lambda>k. Throws)\<rparr>"

definition exEnvDialogDeclined :: env where
  "exEnvDialogDeclined = (exEnvPick [exFree, exChild])\<lparr>openConfirm := (\<lambda>k. Returns False)\<rparr>"

text \<open>
  The picker returns \<open>c\<close> and \<open>d\<close>, both linked from \<open>p\<close>; the first dialog is confirmed
  and the second one fails.
\<close>

definition exEnvSecondDialogThrows :: env where
  "exEnvSecondDialogThrows =
     exEnv\<lparr>selectMultipleEntries := Returns (Some [exChild, exEntry ''d'' []]),
       linksToEntry := (\<lambda>k i. Returns [exParent]),
       openConfirm := (\<lambda>k. if k = 0 then Returns True else Throws)\<rparr>"

section \<open>Status derivation\<close>

lemma jsPlusOne_storeCounter: "storeCounter n \<Longrightarrow> jsPlusOne n = n + 1"
  by (simp add: storeCounter_def jsPlusOne_def)

text \<open>
  C3: for every record whose optional counters, where set, are counters as the store
  issues them, \<open>getEntryStatus\<close> is the function of the version counters that the claim
  gives: \<open>archived\<close> if an archived version is set; otherwise \<open>published\<close> if a published
  version is set and the version equals it plus 1; otherwise \<open>changed\<close> if a published
  version is set and the version exceeds it plus 1; otherwise \<open>draft\<close>. The four examples
  evaluate as stated.
\<close>

theorem getEntryStatus_by_counters:
  "((\<forall>a. archivedVersion entry = Some a \<longrightarrow> storeCounter a)
    \<and> (\<forall>p. publishedVersion entry = Some p \<longrightarrow> storeCounter p) \<longrightarrow>
      getEntryStatus entry =
        (if archivedVersion entry \<noteq> None then Archived
         else if \<exists>p. publishedVersion entry = Some p \<and> version entry = p + 1 then Published
         else if \<exists>p. publishedVersion entry = Some p \<and> version entry > p + 1 then Changed
         else Draft))
   \<and> getEntryStatus \<lparr>entry_id = i, contentType_id = t, publishedVersion = None, version = 1,
         archivedVersion = None, entry_fields = f\<rparr> = Draft
   \<and> getEntryStatus \<lparr>entry_id = i, contentType_id = t, publishedVersion = Some 1, version = 2,
         archivedVersion = None, entry_fields = f\<rparr> = Published
   \<and> getEntryStatus \<lparr>entry_id = i, contentType_id = t, publishedVersion = Some 1, version = 4,
         archivedVersion = None, entry_fields = f\<rparr> = Changed
   \<and> getEntryStatus \<lparr>entry_id = i, contentType_id = t, publishedVersion = None, version = 1,
         archivedVersion = Some 1, entry_fields = f\<rparr> = Archived"
proof (intro conjI impI)
  assume a: "(\<forall>a. archivedVersion entry = Some a \<longrightarrow> storeCounter a)
    \<and> (\<forall>p. publishedVersion entry = Some p \<longrightarrow> storeCounter p)"
  show "getEntryStatus entry =
        (if archivedVersion entry \<noteq> None then Archived
         else if \<exists>p. publishedVersion entry = Some p \<and> version entry = p + 1 then Published
         else if \<exists>p. publishedVersion entry = Some p \<and> version entry > p + 1 then Changed
         else Draft)"
  proof (cases "archivedVersion entry")
    case (Some av)
    with a have "storeCounter av" by simp
    with Some show ?thesis
      by (simp add: getEntryStatus_def truthyNum_def storeCounter_def)
  next
    case None
    show ?thesis
    proof (cases "publishedVersion entry")
      case pn: None
      with None show ?thesis
        by (simp add: getEntryStatus_def truthyNum_def andNum_def)
    next
      case (Some pv)
      with a have c: "storeCounter pv" by simp
      then have "pv \<noteq> 0" by (simp add: storeCounter_def)
      with None Some show ?thesis
        by (simp add: getEntryStatus_def truthyNum_def andNum_def jsPlusOne_storeCounter [OF c])
    qed
  qed
qed (simp_all add: getEntryStatus_def truthyNum_def andNum_def jsPlusOne_def)

theorem getEntryStatus_by_counters_witness:
  "archivedVersion ((exEntry ''e1'' [])\<lparr>publishedVersion := Some 7, version := 8\<rparr>) = None
   \<and> storeCounter 7
   \<and> getEntryStatus ((exEntry ''e1'' [])\<lparr>publishedVersion := Some 7, version := 8\<rparr>) = Published
   \<and> storeCounter 3
   \<and> getEntryStatus ((exEntry ''e1'' [])\<lparr>publishedVersion := Some 7, version := 9,
        archivedVersion := Some 3\<rparr>) = Archived"
proof -
  let ?p = "(exEntry ''e1'' [])\<lparr>publishedVersion := Some 7, version := 8\<rparr>"
  let ?a = "(exEntry ''e1'' [])\<lparr>publishedVersion := Some 7, version := 9,
        archivedVersion := Some 3\<rparr>"
  have c: "storeCounter 7" "storeCounter 3" by (simp_all add: storeCounter_def)
  have f: "archivedVersion ?p = None" "publishedVersion ?p = Some 7" "version ?p = 8"
    "archivedVersion ?a = Some 3" "publishedVersion ?a = Some 7"
    by (simp_all add: exEntry_def)
  have hp: "(\<forall>a. archivedVersion ?p = Some a \<longrightarrow> storeCounter a)
    \<and> (\<forall>p. publishedVersion ?p = Some p \<longrightarrow> storeCounter p)"
    using c f by simp
  have ha: "(\<forall>a. archivedVersion ?a = Some a \<longrightarrow> storeCounter a)
    \<and> (\<forall>p. publishedVersion ?a = Some p \<longrightarrow> storeCounter p)"
    using c f by simp
  from getEntryStatus_by_counters [of ?p] hp have "getEntryStatus ?p = Published"
    using f by simp
  moreover from getEntryStatus_by_counters [of ?a] ha have "getEntryStatus ?a = Archived"
    using f by simp
  ultimately show ?thesis using c f by simp
qed

text \<open>
  Outside that range the code follows the truthiness of the counters and the arithmetic
  of doubles: a counter of 0 counts as not set, and at \<open>2 ^ 53\<close>, where adding 1 changes
  nothing, equal version and published version give \<open>published\<close>.
\<close>

lemma getEntryStatus_zero_counter_example:
  "archivedVersion exEntryArchivedZero = Some 0 \<and> getEntryStatus exEntryArchivedZero = Draft"
  by (simp add: exEntryArchivedZero_def exEntry_def getEntryStatus_def truthyNum_def andNum_def)

lemma getEntryStatus_inexact_example:
  "getEntryStatus ((exEntry ''e1'' [])\<lparr>publishedVersion := Some (2 ^ 53), version := 2 ^ 53\<rparr>)
     = Published"
  by (simp add: exEntry_def getEntryStatus_def truthyNum_def andNum_def jsPlusOne_def)

section \<open>Duplicate detection\<close>

lemma fst_fold_dupStep:
  "fst (fold dupStep its (seen, dups)) = seen \<union> set (map (\<lambda>i. sys_id (link i)) its)"
  by (induction its arbitrary: seen dups) (auto simp: dupStep_def Let_def)

lemma duplicateUniqueIds_snoc:
  "duplicateUniqueIds (its @ [x]) =
     (if sys_id (link x) \<in> set (map (\<lambda>i. sys_id (link i)) its)
      then insert (uniqueId x) (duplicateUniqueIds its) else duplicateUniqueIds its)"
proof -
  obtain s d where sd: "fold dupStep its ({}, {}) = (s, d)"
    by (cases "fold dupStep its ({}, {})")
  have "s = set (map (\<lambda>i. sys_id (link i)) its)"
    using fst_fold_dupStep [of its "{}" "{}"] sd by simp
  then show ?thesis
    by (simp add: duplicateUniqueIds_def sd dupStep_def Let_def)
qed

lemma seenBefore_old: "i < length xs \<Longrightarrow> seenBefore (xs @ [x]) i = seenBefore xs i"
  by (simp add: seenBefore_def nth_append)

lemma seenBefore_new:
  "seenBefore (xs @ [x]) (length xs) = (sys_id (link x) \<in> set (map (\<lambda>x. sys_id (link x)) xs))"
  by (simp add: seenBefore_def)

lemma flagged_snoc:
  "{uniqueId ((xs @ [x]) ! i) | i. i < length (xs @ [x]) \<and> seenBefore (xs @ [x]) i} =
   {uniqueId (xs ! i) | i. i < length xs \<and> seenBefore xs i} \<union>
   (if seenBefore (xs @ [x]) (length xs) then {uniqueId x} else {})" (is "?L = ?A \<union> ?B")
proof (rule set_eqI)
  fix k
  show "k \<in> ?L \<longleftrightarrow> k \<in> ?A \<union> ?B"
  proof
    assume "k \<in> ?L"
    then obtain i where i: "k = uniqueId ((xs @ [x]) ! i)" "i < Suc (length xs)"
      "seenBefore (xs @ [x]) i" by auto
    show "k \<in> ?A \<union> ?B"
    proof (cases "i < length xs")
      case True
      then have "k = uniqueId (xs ! i)" "seenBefore xs i"
        using i seenBefore_old [of i xs x] by (simp_all add: nth_append)
      with True have "k \<in> ?A" by blast
      then show ?thesis by simp
    next
      case False
      with i have "i = length xs" by simp
      with i have "k \<in> ?B" by simp
      then show ?thesis by simp
    qed
  next
    assume "k \<in> ?A \<union> ?B"
    then consider (a) "k \<in> ?A" | (b) "k \<in> ?B" by blast
    then show "k \<in> ?L"
    proof cases
      case a
      then obtain i where i: "k = uniqueId (xs ! i)" "i < length xs" "seenBefore xs i" by blast
      then have "k = uniqueId ((xs @ [x]) ! i)" "i < length (xs @ [x])" "seenBefore (xs @ [x]) i"
        using seenBefore_old [of i xs x] by (simp_all add: nth_append)
      then show ?thesis by blast
    next
      case b
      then have "seenBefore (xs @ [x]) (length xs)" "k = uniqueId x"
        by (simp_all split: if_splits)
      then have "k = uniqueId ((xs @ [x]) ! length xs)" "length xs < length (xs @ [x])"
         "seenBefore (xs @ [x]) (length xs)" by simp_all
      then show ?thesis by blast
    qed
  qed
qed

lemma duplicateUniqueIds_seenBefore:
  "duplicateUniqueIds its = {uniqueId (its ! i) | i. i < length its \<and> seenBefore its i}"
proof (induction its rule: rev_induct)
  case Nil
  then show ?case by (simp add: duplicateUniqueIds_def)
next
  case (snoc x xs)
  show ?case
    by (simp only: duplicateUniqueIds_snoc flagged_snoc seenBefore_new snoc.IH)
       (simp split: if_splits)
qed

lemma flagged_index:
  assumes "distinct (map uniqueId its)" "i < length its"
  shows "uniqueId (its ! i) \<in> duplicateUniqueIds its \<longleftrightarrow> seenBefore its i"
proof
  assume "uniqueId (its ! i) \<in> duplicateUniqueIds its"
  then obtain j where j: "uniqueId (its ! i) = uniqueId (its ! j)" "j < length its"
    "seenBefore its j"
    unfolding duplicateUniqueIds_seenBefore by blast
  have "i = j"
    using nth_eq_iff_index_eq [of "map uniqueId its" i j] assms j by simp
  with j show "seenBefore its i" by simp
next
  assume "seenBefore its i"
  with assms show "uniqueId (its ! i) \<in> duplicateUniqueIds its"
    unfolding duplicateUniqueIds_seenBefore by blast
qed

lemma seenBefore_iff_earlier_index:
  assumes "i < length its"
  shows "seenBefore its i \<longleftrightarrow> (\<exists>j<i. sys_id (link (its ! j)) = sys_id (link (its ! i)))"
proof -
  have "set (take i its) = (!) its ` {0..<i}"
    using assms by (simp add: nth_image)
  then have "set (map (\<lambda>x. sys_id (link x)) (take i its)) = (\<lambda>j. sys_id (link (its ! j))) ` {0..<i}"
    by (simp add: image_image)
  then have "seenBefore its i \<longleftrightarrow>
      sys_id (link (its ! i)) \<in> (\<lambda>j. sys_id (link (its ! j))) ` {0..<i}"
    unfolding seenBefore_def by simp
  also have "\<dots> \<longleftrightarrow> (\<exists>j<i. sys_id (link (its ! j)) = sys_id (link (its ! i)))"
    unfolding image_iff by (metis atLeastLessThan_iff le0)
  finally show ?thesis .
qed

lemma duplicateUniqueIds_step:
  assumes "i < length its"
  shows "duplicateUniqueIds (take (Suc i) its) =
           (if \<exists>j<i. sys_id (link (its ! j)) = sys_id (link (its ! i))
            then insert (uniqueId (its ! i)) (duplicateUniqueIds (take i its))
            else duplicateUniqueIds (take i its))"
proof -
  have "take (Suc i) its = take i its @ [its ! i]"
    using assms by (rule take_Suc_conv_app_nth)
  moreover have "sys_id (link (its ! i)) \<in> set (map (\<lambda>x. sys_id (link x)) (take i its))
      \<longleftrightarrow> (\<exists>j<i. sys_id (link (its ! j)) = sys_id (link (its ! i)))"
    using seenBefore_iff_earlier_index [OF assms] by (simp only: seenBefore_def)
  ultimately show ?thesis
    by (simp only: duplicateUniqueIds_snoc)
qed

text \<open>
  C2: the flagged keys are exactly the keys of the items whose target id stands at an
  earlier position too, that is of the second and later occurrences. The loop adds the key
  of the item at position \<open>i\<close> when its target id stands at an earlier position and adds
  nothing otherwise, so it never flags at a first occurrence. In a collection, whose local
  keys are pairwise distinct, an item is flagged if and only if it is such a later
  occurrence.
\<close>

theorem duplicateUniqueIds_later_occurrences:
  "duplicateUniqueIds its =
     {uniqueId (its ! i) | i.
        i < length its \<and> (\<exists>j<i. sys_id (link (its ! j)) = sys_id (link (its ! i)))}
   \<and> (\<forall>i<length its.
        duplicateUniqueIds (take (Suc i) its) =
          (if \<exists>j<i. sys_id (link (its ! j)) = sys_id (link (its ! i))
           then insert (uniqueId (its ! i)) (duplicateUniqueIds (take i its))
           else duplicateUniqueIds (take i its)))
   \<and> (distinct (map uniqueId its) \<longrightarrow>
        (\<forall>i<length its.
           uniqueId (its ! i) \<in> duplicateUniqueIds its \<longleftrightarrow>
           (\<exists>j<i. sys_id (link (its ! j)) = sys_id (link (its ! i)))))"
proof (intro conjI)
  have "{uniqueId (its ! i) | i. i < length its \<and> seenBefore its i} =
        {uniqueId (its ! i) | i.
           i < length its \<and> (\<exists>j<i. sys_id (link (its ! j)) = sys_id (link (its ! i)))}"
    using seenBefore_iff_earlier_index [of _ its] by blast
  then show "duplicateUniqueIds its =
     {uniqueId (its ! i) | i.
        i < length its \<and> (\<exists>j<i. sys_id (link (its ! j)) = sys_id (link (its ! i)))}"
    by (simp only: duplicateUniqueIds_seenBefore)
next
  show "\<forall>i<length its.
        duplicateUniqueIds (take (Suc i) its) =
          (if \<exists>j<i. sys_id (link (its ! j)) = sys_id (link (its ! i))
           then insert (uniqueId (its ! i)) (duplicateUniqueIds (take i its))
           else duplicateUniqueIds (take i its))"
    using duplicateUniqueIds_step [of _ its] by blast
next
  show "distinct (map uniqueId its) \<longrightarrow>
        (\<forall>i<length its.
           uniqueId (its ! i) \<in> duplicateUniqueIds its \<longleftrightarrow>
           (\<exists>j<i. sys_id (link (its ! j)) = sys_id (link (its ! i))))"
    using flagged_index [of its] seenBefore_iff_earlier_index [of _ its] by simp
qed

theorem duplicateUniqueIds_later_occurrences_witness:
  "distinct (map uniqueId exItems)
   \<and> uniqueId (exItems ! 0) \<notin> duplicateUniqueIds exItems
   \<and> uniqueId (exItems ! 1) \<notin> duplicateUniqueIds exItems
   \<and> uniqueId (exItems ! 2) \<in> duplicateUniqueIds exItems"
proof -
  have d: "distinct (map uniqueId exItems)"
    by (simp add: exItems_def exItem_def)
  have l: "length exItems = 3" by (simp add: exItems_def)
  have t: "sys_id (link (exItems ! 0)) = ''a''" "sys_id (link (exItems ! 1)) = ''b''"
    "sys_id (link (exItems ! 2)) = ''a''"
    by (simp_all add: exItems_def exItem_def exLink_def)
  from duplicateUniqueIds_later_occurrences [of exItems] d
  have "\<forall>i<length exItems. uniqueId (exItems ! i) \<in> duplicateUniqueIds exItems \<longleftrightarrow>
      (\<exists>j<i. sys_id (link (exItems ! j)) = sys_id (link (exItems ! i)))"
    by blast
  then have iff: "\<And>i. i < 3 \<Longrightarrow> uniqueId (exItems ! i) \<in> duplicateUniqueIds exItems \<longleftrightarrow>
      (\<exists>j<i. sys_id (link (exItems ! j)) = sys_id (link (exItems ! i)))"
    using l by simp
  have "\<not> (\<exists>j<0::nat. sys_id (link (exItems ! j)) = sys_id (link (exItems ! 0)))" by simp
  moreover have "\<not> (\<exists>j<1::nat. sys_id (link (exItems ! j)) = sys_id (link (exItems ! 1)))"
    using t by simp
  moreover have "\<exists>j<2::nat. sys_id (link (exItems ! j)) = sys_id (link (exItems ! 2))"
    using t by (intro exI [of _ 0]) simp
  ultimately show ?thesis
    using d iff [of 0] iff [of 1] iff [of 2] by simp
qed

section \<open>Moving and reordering items\<close>

lemma splice1_in_range:
  "i < length xs \<Longrightarrow> splice1 i xs = ([xs ! i], take i xs @ drop (Suc i) xs)"
  by (simp add: splice1_def Cons_nth_drop_Suc [symmetric])

lemma items_updateFieldValue: "items (snd (updateFieldValue e new w)) = new"
  by (simp add: updateFieldValue_def Let_def)

lemma upt_without:
  assumes "i < n"
  shows "filter (\<lambda>j. j \<noteq> i) [0..<n] = [0..<i] @ [Suc i..<n]"
proof -
  have "[0..<n] = take i [0..<n] @ drop i [0..<n]" by (simp only: append_take_drop_id)
  also have "take i [0..<n] = [0..<i]" using assms by simp
  also have "drop i [0..<n] = [i..<n]" by simp
  also have "[i..<n] = i # [Suc i..<n]" using assms by (rule upt_conv_Cons)
  finally have up: "[0..<n] = [0..<i] @ i # [Suc i..<n]" .
  have f1: "filter (\<lambda>j. j \<noteq> i) [0..<i] = [0..<i]" by (rule filter_True) simp
  have f2: "filter (\<lambda>j. j \<noteq> i) [Suc i..<n] = [Suc i..<n]" by (rule filter_True) simp
  show ?thesis by (subst up) (simp add: f1 f2)
qed

lemma remove_nth_as_map:
  assumes "i < length xs"
  shows "take i xs @ drop (Suc i) xs = map ((!) xs) (filter (\<lambda>j. j \<noteq> i) [0..<length xs])"
proof -
  let ?N = "[0..<length xs]"
  have "take i xs @ drop (Suc i) xs = take i (map ((!) xs) ?N) @ drop (Suc i) (map ((!) xs) ?N)"
    by (simp only: map_nth)
  also have "\<dots> = map ((!) xs) (take i ?N @ drop (Suc i) ?N)"
    by (simp only: take_map drop_map map_append)
  also have "take i ?N @ drop (Suc i) ?N = [0..<i] @ [Suc i..<length xs]"
    using assms by simp
  finally show ?thesis using assms by (simp only: upt_without)
qed

lemma onMove_items:
  assumes "i < length (items w)"
  shows "items (snd (onMove e i Top w)) =
           items w ! i # (take i (items w) @ drop (Suc i) (items w))"
    and "items (snd (onMove e i Bottom w)) =
           (take i (items w) @ drop (Suc i) (items w)) @ [items w ! i]"
  using assms by (simp_all add: onMove_def splice1_in_range items_updateFieldValue)

text \<open>
  C8: for an index \<open>i\<close> within the collection, moving to the top gives the item at \<open>i\<close>
  followed by all other items in their previous order, so the item stands at index 0;
  moving to the bottom gives all other items in their previous order followed by the
  item, so it stands at index \<open>n - 1\<close>. The size does not change.
\<close>

theorem onMove_to_edge:
  "i < length (items w) \<longrightarrow>
     (let n = length (items w);
          others = map ((!) (items w)) (filter (\<lambda>j. j \<noteq> i) [0..<n]);
          top = items (snd (onMove e i Top w));
          bottom = items (snd (onMove e i Bottom w))
      in top = items w ! i # others \<and> top ! 0 = items w ! i \<and> length top = n
         \<and> bottom = others @ [items w ! i] \<and> bottom ! (n - 1) = items w ! i
         \<and> length bottom = n)"
proof
  assume i: "i < length (items w)"
  let ?rest = "take i (items w) @ drop (Suc i) (items w)"
  have len: "length ?rest = length (items w) - 1" using i by simp
  have "(?rest @ [items w ! i]) ! (length (items w) - 1) = items w ! i"
    using len by (metis nth_append_length)
  then show "let n = length (items w);
          others = map ((!) (items w)) (filter (\<lambda>j. j \<noteq> i) [0..<n]);
          top = items (snd (onMove e i Top w));
          bottom = items (snd (onMove e i Bottom w))
      in top = items w ! i # others \<and> top ! 0 = items w ! i \<and> length top = n
         \<and> bottom = others @ [items w ! i] \<and> bottom ! (n - 1) = items w ! i
         \<and> length bottom = n"
    unfolding Let_def onMove_items [OF i] remove_nth_as_map [OF i, symmetric]
    using i len by simp
qed

theorem onMove_to_edge_witness:
  "(2::nat) < length (items (exWorld exItems))
   \<and> items (snd (onMove exEnv 2 Top (exWorld exItems))) =
       [exItem ''k3'' ''a'', exItem ''k1'' ''a'', exItem ''k2'' ''b'']
   \<and> items (snd (onMove exEnv 2 Bottom (exWorld exItems))) =
       [exItem ''k1'' ''a'', exItem ''k2'' ''b'', exItem ''k3'' ''a'']"
proof -
  have its: "items (exWorld exItems) = exItems"
    by (simp add: exWorld_def)
  have l: "(2::nat) < length (items (exWorld exItems))"
    by (simp add: its) (simp add: exItems_def)
  have u: "filter (\<lambda>j. j \<noteq> 2) [0..<length exItems] = [0, 1]"
    by (simp add: exItems_def upt_rec)
  from onMove_to_edge [of 2 "exWorld exItems" exEnv] l
  have "items (snd (onMove exEnv 2 Top (exWorld exItems))) = exItems ! 2 # map ((!) exItems) [0, 1]"
    and "items (snd (onMove exEnv 2 Bottom (exWorld exItems))) = map ((!) exItems) [0, 1] @ [exItems ! 2]"
    by (simp_all add: Let_def its u)
  then show ?thesis using l by (simp add: exItems_def)
qed

lemma onDragEnd_items:
  assumes "i < length (items w)"
  shows "items (snd (onDragEnd e \<lparr>source_index = i, destination_index = Some d\<rparr> w)) =
           spliceIn d (items w ! i) (take i (items w) @ drop (Suc i) (items w))"
  using assms by (simp add: onDragEnd_def splice1_in_range items_updateFieldValue)

lemma spliceIn_at:
  assumes "d \<le> length rest"
  shows "length (spliceIn d x rest) = Suc (length rest)"
    and "spliceIn d x rest ! d = x"
    and "take d (spliceIn d x rest) @ drop (Suc d) (spliceIn d x rest) = rest"
  using assms by (simp_all add: spliceIn_def nth_append min_def)

lemma spliceIn_back:
  assumes "i < length xs"
  shows "spliceIn i (xs ! i) (take i xs @ drop (Suc i) xs) = xs"
proof -
  have "take i (take i xs @ drop (Suc i) xs) = take i xs" using assms by simp
  moreover have "drop i (take i xs @ drop (Suc i) xs) = drop (Suc i) xs" using assms by simp
  ultimately show ?thesis
    using assms by (simp add: spliceIn_def id_take_nth_drop [symmetric])
qed

lemma reorder_there_and_back:
  assumes "i < length xs" "d < length xs"
  defines "ys \<equiv> spliceIn d (xs ! i) (take i xs @ drop (Suc i) xs)"
  shows "d < length ys" and "spliceIn i (ys ! d) (take d ys @ drop (Suc d) ys) = xs"
proof -
  let ?rest = "take i xs @ drop (Suc i) xs"
  have len: "length ?rest = length xs - 1" using assms by simp
  then have d: "d \<le> length ?rest" using assms by simp
  from spliceIn_at [OF d, of "xs ! i"] show "d < length ys"
    using assms len by (simp add: ys_def)
  from spliceIn_at [OF d, of "xs ! i"]
  show "spliceIn i (ys ! d) (take d ys @ drop (Suc d) ys) = xs"
    using spliceIn_back [OF assms(1)] by (simp add: ys_def)
qed

text \<open>
  C7: for indices \<open>src\<close> and \<open>dst\<close> within the collection, a drag from \<open>src\<close> to \<open>dst\<close>
  removes the item at \<open>src\<close> and inserts it at \<open>dst\<close> of what remains, and a drag back from
  \<open>dst\<close> to \<open>src\<close> restores the collection.
\<close>

theorem onDragEnd_remove_insert_and_back:
  "src < length (items w) \<and> dst < length (items w) \<longrightarrow>
     (let rest = take src (items w) @ drop (Suc src) (items w);
          w1 = snd (onDragEnd e \<lparr>source_index = src, destination_index = Some dst\<rparr> w)
      in items w1 = take dst rest @ items w ! src # drop dst rest
         \<and> items (snd (onDragEnd e' \<lparr>source_index = dst, destination_index = Some src\<rparr> w1))
             = items w)"
proof
  assume a: "src < length (items w) \<and> dst < length (items w)"
  let ?w1 = "snd (onDragEnd e \<lparr>source_index = src, destination_index = Some dst\<rparr> w)"
  let ?ys = "spliceIn dst (items w ! src) (take src (items w) @ drop (Suc src) (items w))"
  have w1: "items ?w1 = ?ys" using a by (simp add: onDragEnd_items)
  have d: "dst < length (items ?w1)"
    using reorder_there_and_back(1) [of src "items w" dst] a w1 by simp
  have restored: "items (snd (onDragEnd e' \<lparr>source_index = dst, destination_index = Some src\<rparr> ?w1))
      = items w"
    using reorder_there_and_back(2) [of src "items w" dst] a
    by (simp add: onDragEnd_items [OF d] w1)
  show "let rest = take src (items w) @ drop (Suc src) (items w);
          w1 = snd (onDragEnd e \<lparr>source_index = src, destination_index = Some dst\<rparr> w)
      in items w1 = take dst rest @ items w ! src # drop dst rest
         \<and> items (snd (onDragEnd e' \<lparr>source_index = dst, destination_index = Some src\<rparr> w1))
             = items w"
    unfolding Let_def using w1 restored by (simp add: spliceIn_def)
qed

theorem onDragEnd_remove_insert_and_back_witness:
  "(0::nat) < length (items (exWorld exItems)) \<and> (2::nat) < length (items (exWorld exItems))
   \<and> items (snd (onDragEnd exEnv \<lparr>source_index = 0, destination_index = Some 2\<rparr>
        (exWorld exItems))) = [exItem ''k2'' ''b'', exItem ''k3'' ''a'', exItem ''k1'' ''a'']
   \<and> items (snd (onDragEnd exEnv \<lparr>source_index = 2, destination_index = Some 0\<rparr>
        (snd (onDragEnd exEnv \<lparr>source_index = 0, destination_index = Some 2\<rparr>
          (exWorld exItems))))) = exItems"
proof -
  have its: "items (exWorld exItems) = exItems"
    by (simp add: exWorld_def)
  have l: "(0::nat) < length (items (exWorld exItems)) \<and> (2::nat) < length (items (exWorld exItems))"
    by (simp add: its) (simp add: exItems_def)
  from onDragEnd_remove_insert_and_back [of 0 "exWorld exItems" 2 exEnv exEnv] l
  have "let rest = take 0 (items (exWorld exItems)) @ drop (Suc 0) (items (exWorld exItems));
          w1 = snd (onDragEnd exEnv \<lparr>source_index = 0, destination_index = Some 2\<rparr>
                 (exWorld exItems))
      in items w1 = take 2 rest @ items (exWorld exItems) ! 0 # drop 2 rest
         \<and> items (snd (onDragEnd exEnv \<lparr>source_index = 2, destination_index = Some 0\<rparr> w1))
             = items (exWorld exItems)"
    by blast
  then have "items (snd (onDragEnd exEnv \<lparr>source_index = 0, destination_index = Some 2\<rparr>
        (exWorld exItems))) = take 2 (drop (Suc 0) exItems) @ exItems ! 0 # drop 2 (drop (Suc 0) exItems)"
    and "items (snd (onDragEnd exEnv \<lparr>source_index = 2, destination_index = Some 0\<rparr>
        (snd (onDragEnd exEnv \<lparr>source_index = 0, destination_index = Some 2\<rparr>
          (exWorld exItems))))) = exItems"
    by (simp_all add: Let_def its)
  moreover have "take 2 (drop (Suc 0) exItems) @ exItems ! 0 # drop 2 (drop (Suc 0) exItems)
      = [exItem ''k2'' ''b'', exItem ''k3'' ''a'', exItem ''k1'' ''a'']"
    by (simp add: exItems_def)
  ultimately show ?thesis using l by simp
qed

section \<open>The record cache\<close>

lemma fold_collectEntry:
  "fold collectEntry res (m, l) =
     (m ++ map_of (rev (map (\<lambda>x. (entry_id x, x)) res)), fold addId (map contentType_id res) l)"
proof (induction res arbitrary: m l)
  case Nil
  then show ?case by simp
next
  case (Cons x xs)
  have step: "collectEntry x (m, l) = (m(entry_id x \<mapsto> x), addId (contentType_id x) l)"
    by (simp add: collectEntry_def)
  have "fold collectEntry (x # xs) (m, l) = fold collectEntry xs (collectEntry x (m, l))"
    by simp
  also have "\<dots> = (m(entry_id x \<mapsto> x) ++ map_of (rev (map (\<lambda>x. (entry_id x, x)) xs)),
      fold addId (map contentType_id xs) (addId (contentType_id x) l))"
    by (simp only: step Cons.IH)
  also have "\<dots> = (m ++ map_of (rev (map (\<lambda>x. (entry_id x, x)) (x # xs))),
      fold addId (map contentType_id (x # xs)) l)"
    by simp
  finally show ?case .
qed

lemma fold_collectContentType:
  "fold collectContentType cts m = m ++ map_of (rev (map (\<lambda>c. (ct_id c, c)) cts))"
proof (induction cts arbitrary: m)
  case Nil
  then show ?case by simp
next
  case (Cons c cs)
  have step: "collectContentType c m = m(ct_id c \<mapsto> c)"
    by (simp add: collectContentType_def)
  have "fold collectContentType (c # cs) m = fold collectContentType cs (collectContentType c m)"
    by simp
  also have "\<dots> = m(ct_id c \<mapsto> c) ++ map_of (rev (map (\<lambda>c. (ct_id c, c)) cs))"
    by (simp only: step Cons.IH)
  also have "\<dots> = m ++ map_of (rev (map (\<lambda>c. (ct_id c, c)) (c # cs)))"
    by simp
  finally show ?case .
qed

lemma items_fetchData: "items (fetchData e links w) = items w"
  by (simp add: fetchData_def Let_def consoleError_def case_prod_beta split: outcome.splits)

lemma fetchData_entry_lookup_throws:
  assumes "links \<noteq> []" "entryGetMany e (map sys_id links) = Throws"
  shows "fetchData e links w = w\<lparr>isLoading := False, console := console w @ [ErrorFetchingData]\<rparr>"
  using assms by (simp add: fetchData_def Let_def consoleError_def)

lemma fetchData_type_lookup_throws:
  assumes "links \<noteq> []" "entryGetMany e (map sys_id links) = Returns res"
    "contentTypeGetMany e (snd (fold collectEntry res (Map.empty, []))) = Throws"
  shows "fetchData e links w =
           w\<lparr>entries := fst (fold collectEntry res (Map.empty, [])), isLoading := False,
             console := console w @ [ErrorFetchingData]\<rparr>"
  using assms by (simp add: fetchData_def Let_def consoleError_def case_prod_beta)

lemma fetchData_success:
  assumes "links \<noteq> []" "entryGetMany e (map sys_id links) = Returns res"
    "contentTypeGetMany e (snd (fold collectEntry res (Map.empty, []))) = Returns cts"
  shows "fetchData e links w =
           w\<lparr>entries := fst (fold collectEntry res (Map.empty, [])),
             contentTypes := fold collectContentType cts Map.empty, isLoading := False\<rparr>"
  using assms by (simp add: fetchData_def Let_def case_prod_beta)

lemma isLoading_fetchData: "links \<noteq> [] \<Longrightarrow> isLoading (fetchData e links w) = False"
  by (simp add: fetchData_def Let_def)

text \<open>
  C9, as stated, where the record lookup succeeds and the lookup of the content types
  fails: the fetch has failed and is logged, and the record that was cached before is gone,
  since the new records were stored before the second lookup.
\<close>

theorem fetchData_type_failure_counterexample:
  "[exLink ''new''] \<noteq> []
   \<and> contentTypeGetMany exEnvTypeLookupFails [''page''] = Throws
   \<and> entries exWorldCached ''old'' = Some (exEntry ''old'' [])
   \<and> console (fetchData exEnvTypeLookupFails [exLink ''new''] exWorldCached) = [ErrorFetchingData]
   \<and> entries (fetchData exEnvTypeLookupFails [exLink ''new''] exWorldCached) ''old'' = None"
proof -
  have a: "entryGetMany exEnvTypeLookupFails (map sys_id [exLink ''new'']) =
      Returns [exEntry ''new'' []]"
    by (simp add: exEnvTypeLookupFails_def)
  have b: "contentTypeGetMany exEnvTypeLookupFails
      (snd (fold collectEntry [exEntry ''new'' []] (Map.empty, []))) = Throws"
    by (simp add: exEnvTypeLookupFails_def)
  have c: "contentTypeGetMany exEnvTypeLookupFails [''page''] = Throws"
    by (simp add: exEnvTypeLookupFails_def)
  have d: "entries exWorldCached ''old'' = Some (exEntry ''old'' [])"
    "console exWorldCached = []"
    by (simp_all add: exWorldCached_def exWorld_def)
  have e: "fst (fold collectEntry [exEntry ''new'' []] (Map.empty, [])) ''old'' = None"
    by (simp add: collectEntry_def exEntry_def)
  show ?thesis
    using c d e by (simp add: fetchData_type_lookup_throws [OF _ a b])
qed

text \<open>
  C9, amended: for a non-empty batch the loading flag is cleared on every path and the
  handler returns a state, it raises nothing. When the lookup of the records fails, the
  failure is logged and nothing else changes: both caches are as before. When the lookup
  of the records succeeds and the lookup of their content types fails, the failure is
  logged and the content type cache is as before, and the record cache holds the records
  just fetched.
\<close>

theorem fetchData_failure:
  "links \<noteq> [] \<longrightarrow>
     isLoading (fetchData e links w) = False
     \<and> (entryGetMany e (map sys_id links) = Throws \<longrightarrow>
          fetchData e links w =
            w\<lparr>isLoading := False, console := console w @ [ErrorFetchingData]\<rparr>)
     \<and> (\<forall>res. entryGetMany e (map sys_id links) = Returns res
          \<and> contentTypeGetMany e (snd (fold collectEntry res (Map.empty, []))) = Throws \<longrightarrow>
          fetchData e links w =
            w\<lparr>entries := map_of (rev (map (\<lambda>x. (entry_id x, x)) res)), isLoading := False,
              console := console w @ [ErrorFetchingData]\<rparr>)"
proof
  assume ne: "links \<noteq> []"
  have a: "isLoading (fetchData e links w) = False"
    using ne by (rule isLoading_fetchData)
  have b: "entryGetMany e (map sys_id links) = Throws \<longrightarrow>
      fetchData e links w = w\<lparr>isLoading := False, console := console w @ [ErrorFetchingData]\<rparr>"
    using ne by (simp add: fetchData_entry_lookup_throws)
  have c: "\<forall>res. entryGetMany e (map sys_id links) = Returns res
          \<and> contentTypeGetMany e (snd (fold collectEntry res (Map.empty, []))) = Throws \<longrightarrow>
          fetchData e links w =
            w\<lparr>entries := map_of (rev (map (\<lambda>x. (entry_id x, x)) res)), isLoading := False,
              console := console w @ [ErrorFetchingData]\<rparr>"
  proof (intro allI impI)
    fix res
    assume h: "entryGetMany e (map sys_id links) = Returns res
          \<and> contentTypeGetMany e (snd (fold collectEntry res (Map.empty, []))) = Throws"
    have "fst (fold collectEntry res (Map.empty, [])) = map_of (rev (map (\<lambda>x. (entry_id x, x)) res))"
      by (simp add: fold_collectEntry)
    then show "fetchData e links w =
            w\<lparr>entries := map_of (rev (map (\<lambda>x. (entry_id x, x)) res)), isLoading := False,
              console := console w @ [ErrorFetchingData]\<rparr>"
      using fetchData_type_lookup_throws [OF ne conjunct1 [OF h] conjunct2 [OF h], of w]
      by simp
  qed
  from a b c show "isLoading (fetchData e links w) = False
     \<and> (entryGetMany e (map sys_id links) = Throws \<longrightarrow>
          fetchData e links w =
            w\<lparr>isLoading := False, console := console w @ [ErrorFetchingData]\<rparr>)
     \<and> (\<forall>res. entryGetMany e (map sys_id links) = Returns res
          \<and> contentTypeGetMany e (snd (fold collectEntry res (Map.empty, []))) = Throws \<longrightarrow>
          fetchData e links w =
            w\<lparr>entries := map_of (rev (map (\<lambda>x. (entry_id x, x)) res)), isLoading := False,
              console := console w @ [ErrorFetchingData]\<rparr>)"
    by (intro conjI)
qed

theorem fetchData_failure_witness:
  "[exLink ''new''] \<noteq> []
   \<and> entryGetMany exEnvEntryLookupFails (map sys_id [exLink ''new'']) = Throws
   \<and> fetchData exEnvEntryLookupFails [exLink ''new''] exWorldCached =
       exWorldCached\<lparr>isLoading := False, console := [ErrorFetchingData]\<rparr>
   \<and> entries (fetchData exEnvEntryLookupFails [exLink ''new''] exWorldCached) ''old'' =
       Some (exEntry ''old'' [])"
proof -
  have a: "entryGetMany exEnvEntryLookupFails (map sys_id [exLink ''new'']) = Throws"
    by (simp add: exEnvEntryLookupFails_def)
  have c: "console exWorldCached = []" "entries exWorldCached ''old'' = Some (exEntry ''old'' [])"
    by (simp_all add: exWorldCached_def exWorld_def)
  from fetchData_failure [of "[exLink ''new'']" exEnvEntryLookupFails exWorldCached] a
  have "fetchData exEnvEntryLookupFails [exLink ''new''] exWorldCached =
      exWorldCached\<lparr>isLoading := False, console := console exWorldCached @ [ErrorFetchingData]\<rparr>"
    by simp
  then show ?thesis using a c by simp
qed

text \<open>
  C10: after a fetch of a non-empty batch in which both lookups succeed, the record cache
  is the map made of the returned records alone (the last of two records with one id
  wins) and the content type cache the map made of the returned content types alone:
  their keys are the returned ids, their values are returned records, and nothing that
  was cached before remains unless it was returned again.
\<close>

theorem fetchData_replaces_caches:
  "links \<noteq> [] \<and> entryGetMany e (map sys_id links) = Returns res
   \<and> contentTypeGetMany e (snd (fold collectEntry res (Map.empty, []))) = Returns cts \<longrightarrow>
     entries (fetchData e links w) = map_of (rev (map (\<lambda>x. (entry_id x, x)) res))
     \<and> contentTypes (fetchData e links w) = map_of (rev (map (\<lambda>c. (ct_id c, c)) cts))
     \<and> dom (entries (fetchData e links w)) = entry_id ` set res
     \<and> dom (contentTypes (fetchData e links w)) = ct_id ` set cts
     \<and> ran (entries (fetchData e links w)) \<subseteq> set res
     \<and> ran (contentTypes (fetchData e links w)) \<subseteq> set cts
     \<and> isLoading (fetchData e links w) = False"
proof
  assume a: "links \<noteq> [] \<and> entryGetMany e (map sys_id links) = Returns res
   \<and> contentTypeGetMany e (snd (fold collectEntry res (Map.empty, []))) = Returns cts"
  let ?w = "fetchData e links w"
  have en: "entries ?w = map_of (rev (map (\<lambda>x. (entry_id x, x)) res))"
    and ct: "contentTypes ?w = map_of (rev (map (\<lambda>c. (ct_id c, c)) cts))"
    and lo: "isLoading ?w = False"
    using a by (simp_all add: fetchData_success fold_collectEntry fold_collectContentType)
  have d1: "dom (entries ?w) = entry_id ` set res"
    unfolding en by (simp add: dom_map_of_conv_image_fst image_image)
  have d2: "dom (contentTypes ?w) = ct_id ` set cts"
    unfolding ct by (simp add: dom_map_of_conv_image_fst image_image)
  have r1: "ran (entries ?w) \<subseteq> set res"
  proof
    fix x assume "x \<in> ran (entries ?w)"
    then obtain k where "map_of (rev (map (\<lambda>x. (entry_id x, x)) res)) k = Some x"
      unfolding en ran_def by blast
    from map_of_SomeD [OF this] show "x \<in> set res" by auto
  qed
  have r2: "ran (contentTypes ?w) \<subseteq> set cts"
  proof
    fix x assume "x \<in> ran (contentTypes ?w)"
    then obtain k where "map_of (rev (map (\<lambda>c. (ct_id c, c)) cts)) k = Some x"
      unfolding ct ran_def by blast
    from map_of_SomeD [OF this] show "x \<in> set cts" by auto
  qed
  show "entries ?w = map_of (rev (map (\<lambda>x. (entry_id x, x)) res))
     \<and> contentTypes ?w = map_of (rev (map (\<lambda>c. (ct_id c, c)) cts))
     \<and> dom (entries ?w) = entry_id ` set res
     \<and> dom (contentTypes ?w) = ct_id ` set cts
     \<and> ran (entries ?w) \<subseteq> set res
     \<and> ran (contentTypes ?w) \<subseteq> set cts
     \<and> isLoading ?w = False"
    by (intro conjI) (fact en ct lo d1 d2 r1 r2)+
qed

theorem fetchData_replaces_caches_witness:
  "[exLink ''new''] \<noteq> []
   \<and> entryGetMany exEnvLookupsSucceed (map sys_id [exLink ''new'']) = Returns [exEntry ''new'' []]
   \<and> contentTypeGetMany exEnvLookupsSucceed
        (snd (fold collectEntry [exEntry ''new'' []] (Map.empty, []))) = Returns [exContentType]
   \<and> entries exWorldCached ''old'' = Some (exEntry ''old'' [])
   \<and> entries (fetchData exEnvLookupsSucceed [exLink ''new''] exWorldCached) ''old'' = None
   \<and> entries (fetchData exEnvLookupsSucceed [exLink ''new''] exWorldCached) ''new'' =
       Some (exEntry ''new'' [])
   \<and> contentTypes (fetchData exEnvLookupsSucceed [exLink ''new''] exWorldCached) ''page'' =
       Some exContentType"
proof -
  have a: "entryGetMany exEnvLookupsSucceed (map sys_id [exLink ''new'']) =
      Returns [exEntry ''new'' []]"
    and b: "contentTypeGetMany exEnvLookupsSucceed
        (snd (fold collectEntry [exEntry ''new'' []] (Map.empty, []))) = Returns [exContentType]"
    by (simp_all add: exEnvLookupsSucceed_def)
  have c: "entries exWorldCached ''old'' = Some (exEntry ''old'' [])"
    by (simp add: exWorldCached_def exWorld_def)
  from fetchData_replaces_caches [of "[exLink ''new'']" exEnvLookupsSucceed
      "[exEntry ''new'' []]" "[exContentType]" exWorldCached] a b
  have "entries (fetchData exEnvLookupsSucceed [exLink ''new''] exWorldCached) =
      map_of (rev (map (\<lambda>x. (entry_id x, x)) [exEntry ''new'' []]))"
    and "contentTypes (fetchData exEnvLookupsSucceed [exLink ''new''] exWorldCached) =
      map_of (rev (map (\<lambda>c. (ct_id c, c)) [exContentType]))"
    by simp_all
  then show ?thesis
    using a b c by (simp add: exEntry_def exContentType_def)
qed

section \<open>Replacing the collection\<close>

lemma wrapLinks_links: "map link (fst (wrapLinks e ls w)) = ls"
  by (induction ls arbitrary: w) (simp_all add: case_prod_beta)


lemma wrapLinks_keys:
  "map uniqueId (fst (wrapLinks e ls w)) =
     map (\<lambda>n. substring_2_11 (randomBase36 e n)) [randomCalls w..<randomCalls w + length ls]"
proof (induction ls arbitrary: w)
  case Nil
  then show ?case by simp
next
  case (Cons l ls)
  let ?w1 = "snd (generateUniqueId e w)"
  have w1: "randomCalls ?w1 = Suc (randomCalls w)"
    by (simp add: generateUniqueId_def)
  have "randomCalls w < randomCalls w + length (l # ls)" by simp
  from upt_conv_Cons [OF this]
  have "[randomCalls w..<randomCalls w + length (l # ls)] =
      randomCalls w # [randomCalls ?w1..<randomCalls ?w1 + length ls]"
    by (simp only: w1 length_Cons add_Suc add_Suc_right)
  moreover have "fst (generateUniqueId e w) = substring_2_11 (randomBase36 e (randomCalls w))"
    by (simp add: generateUniqueId_def)
  ultimately show ?case
    using Cons.IH [of ?w1] by (simp add: case_prod_beta)
qed

lemma items_onValueChanged:
  "items (onValueChanged e v w) = fst (wrapLinks e (case v of None \<Rightarrow> [] | Some ls \<Rightarrow> ls) w)"
  by (simp add: onValueChanged_def Let_def case_prod_beta items_fetchData)

text \<open>
  What the handler of an external change does: it leaves the collection with the targets
  exactly in the order of the new value, one item per link, each with a key cut from a
  text newly drawn from the random generator. The keys are pairwise distinct exactly when
  the cut texts of these draws are.
\<close>

lemma onValueChanged_replaces_items:
  "let ids = (case v of None \<Rightarrow> [] | Some ls \<Rightarrow> ls);
       keys = map (\<lambda>n. substring_2_11 (randomBase36 e n))
                [randomCalls w..<randomCalls w + length ids];
       w' = onValueChanged e v w
   in map link (items w') = ids
      \<and> map (\<lambda>item. sys_id (link item)) (items w') = map sys_id ids
      \<and> length (items w') = length ids
      \<and> map uniqueId (items w') = keys
      \<and> distinct (map uniqueId (items w')) = distinct keys"
proof -
  let ?ids = "case v of None \<Rightarrow> [] | Some ls \<Rightarrow> ls"
  have l: "map link (items (onValueChanged e v w)) = ?ids"
    by (simp only: items_onValueChanged wrapLinks_links)
  have k: "map uniqueId (items (onValueChanged e v w)) =
      map (\<lambda>n. substring_2_11 (randomBase36 e n)) [randomCalls w..<randomCalls w + length ?ids]"
    by (simp only: items_onValueChanged wrapLinks_keys)
  have t: "map (\<lambda>item. sys_id (link item)) (items (onValueChanged e v w)) = map sys_id ?ids"
    using arg_cong [OF l, of "map sys_id"] by (simp add: comp_def)
  have n: "length (items (onValueChanged e v w)) = length ?ids"
    using arg_cong [OF l, of length] by simp
  show ?thesis
    unfolding Let_def using l k t n by simp
qed

text \<open>
  C5 on the code: the source names and documents \<open>generateUniqueId\<close> as the maker of
  unique keys, and the claim asks for keys that are pairwise distinct in the collection.
  With the external value \<open>[a, b]\<close> and the random numbers 0.123456789 and
  0.12345678900000001, whose texts in base 36 agree on the characters 2 to 10, the targets
  are in the order given and both items carry the key \<open>4fzzzxjyl\<close>.
\<close>

theorem onValueChanged_same_key:
  "map (\<lambda>item. sys_id (link item))
       (items (onValueChanged exEnvCloseRandom (Some [exLink ''a'', exLink ''b'']) (exWorld [])))
     = [''a'', ''b'']
   \<and> map uniqueId
       (items (onValueChanged exEnvCloseRandom (Some [exLink ''a'', exLink ''b'']) (exWorld [])))
     = [''4fzzzxjyl'', ''4fzzzxjyl'']
   \<and> \<not> distinct (map uniqueId
       (items (onValueChanged exEnvCloseRandom (Some [exLink ''a'', exLink ''b'']) (exWorld []))))"
  by (simp add: items_onValueChanged generateUniqueId_def exEnvCloseRandom_def exWorld_def
      exLink_def substring_2_11_def)

section \<open>The conflict resolver: what each step leaves alone\<close>

lemma findExistingLinks_frame:
  "items (snd (findExistingLinks e k i w)) = items w"
  "fieldValue (snd (findExistingLinks e k i w)) = fieldValue w"
  "store (snd (findExistingLinks e k i w)) = store w"
  "notifications (snd (findExistingLinks e k i w)) = notifications w"
  by (simp_all add: findExistingLinks_def consoleError_def split: outcome.splits)

lemma classify_frame:
  "items (snd (classify e k es acc w)) = items w
   \<and> fieldValue (snd (classify e k es acc w)) = fieldValue w
   \<and> store (snd (classify e k es acc w)) = store w
   \<and> notifications (snd (classify e k es acc w)) = notifications w"
proof (induction es arbitrary: k acc w)
  case Nil
  then show ?case by simp
next
  case (Cons x xs)
  show ?case
    by (cases "fst (findExistingLinks e k (entry_id x) w)")
       (simp_all add: case_prod_beta Cons.IH findExistingLinks_frame)
qed

lemma classify_subset:
  "set (fst (fst (classify e k es acc w))) \<subseteq> set (fst acc) \<union> set es
   \<and> fst ` set (snd (fst (classify e k es acc w))) \<subseteq> fst ` set (snd acc) \<union> set es"
proof (induction es arbitrary: k acc w)
  case Nil
  then show ?case by simp
next
  case (Cons x xs)
  show ?case
  proof (cases "fst (findExistingLinks e k (entry_id x) w)")
    case Nil
    with Cons.IH [of "Suc k" "(fst acc @ [x], snd acc)" "snd (findExistingLinks e k (entry_id x) w)"]
    show ?thesis by (auto simp: case_prod_beta)
  next
    case (Cons first more)
    with Cons.IH [of "Suc k" "(fst acc, snd acc @ [(x, first)])"
        "snd (findExistingLinks e k (entry_id x) w)"]
    show ?thesis by (auto simp: case_prod_beta)
  qed
qed

lemma removeLinkFromEntry_frame:
  "items (snd (removeLinkFromEntry e k p f l c w)) = items w"
  "fieldValue (snd (removeLinkFromEntry e k p f l c w)) = fieldValue w"
  "notifications (snd (removeLinkFromEntry e k p f l c w)) = notifications w"
  by (simp_all add: removeLinkFromEntry_def consoleError_def Let_def
      split: option.splits lookup.splits outcome.splits)


lemma moveLoop_frame:
  "items (snd (moveLoop e k ms acc w)) = items w
   \<and> fieldValue (snd (moveLoop e k ms acc w)) = fieldValue w"
proof (induction ms arbitrary: k acc w)
  case Nil
  then show ?case by simp
next
  case (Cons m ms)
  show ?case
    by (cases "openConfirm e k")
       (simp_all add: Let_def case_prod_beta Cons.IH removeLinkFromEntry_frame notify_def)
qed

lemma moveLoop_subset:
  "moveLoop e k ms acc w = (Done toAdd, w') \<Longrightarrow> set toAdd \<subseteq> set acc \<union> fst ` set ms"
proof (induction ms arbitrary: k acc w)
  case Nil
  then show ?case by simp
next
  case (Cons m ms)
  show ?case
  proof (cases "openConfirm e k")
    case Throws
    with Cons.prems show ?thesis by simp
  next
    case (Returns confirmed)
    let ?r = "removeLinkFromEntry e k (entry_id (lf_entry (snd m))) (lf_fieldId (snd m))
                (lf_locale (snd m)) (entry_id (fst m)) w"
    consider (skip) "\<not> confirmed" | (moved) "confirmed" "fst ?r" | (failed) "confirmed" "\<not> fst ?r"
      by blast
    then show ?thesis
    proof cases
      case skip
      with Cons.prems Returns have "moveLoop e (Suc k) ms acc w = (Done toAdd, w')" by simp
      from Cons.IH [OF this] show ?thesis by auto
    next
      case moved
      with Cons.prems Returns obtain w1 where
        "moveLoop e (Suc k) ms (acc @ [fst m]) w1 = (Done toAdd, w')"
        by (simp add: Let_def case_prod_beta)
      from Cons.IH [OF this] show ?thesis by auto
    next
      case failed
      with Cons.prems Returns obtain w1 where
        "moveLoop e (Suc k) ms acc w1 = (Done toAdd, w')"
        by (simp add: Let_def case_prod_beta)
      from Cons.IH [OF this] show ?thesis by auto
    qed
  qed
qed

lemma moveLoop_raises:
  "j < length ms \<Longrightarrow> openConfirm e (k + j) = Throws \<Longrightarrow> fst (moveLoop e k ms acc w) = Raised"
proof (induction ms arbitrary: k j acc w)
  case Nil
  then show ?case by simp
next
  case (Cons m ms)
  show ?case
  proof (cases j)
    case 0
    with Cons.prems show ?thesis by simp
  next
    case (Suc j')
    with Cons.prems have j': "j' < length ms" "openConfirm e (Suc k + j') = Throws" by simp_all
    show ?thesis
      by (cases "openConfirm e k")
         (simp_all add: Let_def case_prod_beta Cons.IH [OF j'])
  qed
qed

text \<open>The paths through \<open>onAddExisting\<close>, one equation each.\<close>

lemma addExistingBody_warning:
  assumes "selectMultipleEntries e = Returns (Some sel)" "newEntriesOf w sel = []" "sel \<noteq> []"
  shows "addExistingBody e w = (Done (), notify (Warning AllSelectedAlreadyAdded) w)"
  using assms by (simp add: addExistingBody_def)

lemma addExistingBody_loops:
  assumes "selectMultipleEntries e = Returns (Some sel)"
    and "\<not> (newEntriesOf w sel = [] \<and> sel \<noteq> [])"
    and "classify e 0 (newEntriesOf w sel) ([], []) w = ((toAdd0, toMove), w1)"
  shows "moveLoop e 0 toMove toAdd0 w1 = (Raised, w2) \<Longrightarrow> addExistingBody e w = (Raised, w2)"
    and "moveLoop e 0 toMove toAdd0 w1 = (Done [], w2) \<Longrightarrow> addExistingBody e w = (Done (), w2)"
    and "moveLoop e 0 toMove toAdd0 w1 = (Done toAdd, w2) \<Longrightarrow> toAdd \<noteq> [] \<Longrightarrow>
         wrapLinks e (map linkTo toAdd) w2 = (newLocalItems, w3) \<Longrightarrow>
         addExistingBody e w =
           (case updateFieldValue e (items w @ newLocalItems) w3 of
              (Raised, w4) \<Rightarrow> (Raised, w4)
            | (Done u, w4) \<Rightarrow>
                (if length toAdd < length sel \<and> toMove = []
                 then (Done (), notify (Success (AddedDuplicatesSkipped (length toAdd))) w4)
                 else (Done (), w4)))"
  using assms by (auto simp add: addExistingBody_def Let_def split: prod.splits res.splits)

lemma items_after_update:
  "items (snd (case updateFieldValue e new w of
              (Raised, w4) \<Rightarrow> (Raised, w4)
            | (Done u, w4) \<Rightarrow> (if b then (Done (), notify n w4) else (Done (), w4)))) = new"
  by (simp add: updateFieldValue_def Let_def notify_def)

lemma items_onAddExisting_body:
  "items (onAddExisting e w) = items (snd (addExistingBody e w))"
  by (cases "addExistingBody e w"; cases "fst (addExistingBody e w)")
     (simp_all add: onAddExisting_def consoleError_def)

text \<open>
  After the two loops the handler appends one new item per entry of \<open>entriesToAdd\<close> to the
  items it started with, or leaves the items as they are.
\<close>

lemma items_onAddExisting:
  "items (onAddExisting e w) = items w
   \<or> (\<exists>sel toAdd0 toMove w1 toAdd w2.
         selectMultipleEntries e = Returns (Some sel)
         \<and> classify e 0 (newEntriesOf w sel) ([], []) w = ((toAdd0, toMove), w1)
         \<and> moveLoop e 0 toMove toAdd0 w1 = (Done toAdd, w2)
         \<and> items (onAddExisting e w) = items w @ fst (wrapLinks e (map linkTo toAdd) w2))"
proof (cases "selectMultipleEntries e")
  case Throws
  then show ?thesis
    by (simp add: onAddExisting_def addExistingBody_def consoleError_def)
next
  case (Returns picked)
  show ?thesis
  proof (cases picked)
    case None
    with Returns show ?thesis
      by (simp add: onAddExisting_def addExistingBody_def)
  next
    case (Some sel)
    with Returns have sel: "selectMultipleEntries e = Returns (Some sel)" by simp
    obtain toAdd0 toMove w1 where
      c: "classify e 0 (newEntriesOf w sel) ([], []) w = ((toAdd0, toMove), w1)"
      by (metis prod.collapse)
    obtain r w2 where m: "moveLoop e 0 toMove toAdd0 w1 = (r, w2)"
      by (metis prod.collapse)
    have "items w1 = items w"
      using classify_frame [of e 0 "newEntriesOf w sel" "([], [])" w] c by simp
    then have frame: "items w2 = items w"
      using moveLoop_frame [of e 0 toMove toAdd0 w1] m by simp
    show ?thesis
    proof (cases "newEntriesOf w sel = [] \<and> sel \<noteq> []")
      case True
      then show ?thesis
        using addExistingBody_warning [OF sel, of w]
        by (simp add: items_onAddExisting_body notify_def)
    next
      case False
      show ?thesis
      proof (cases r)
        case Raised
        with m frame show ?thesis
          using addExistingBody_loops(1) [OF sel False c, of w2]
          by (simp add: items_onAddExisting_body)
      next
        case (Done toAdd)
        show ?thesis
        proof (cases "toAdd = []")
          case True
          with m Done frame show ?thesis
            using addExistingBody_loops(2) [OF sel False c, of w2]
            by (simp add: items_onAddExisting_body)
        next
          case nonempty: False
          obtain newLocalItems w3 where
            wl: "wrapLinks e (map linkTo toAdd) w2 = (newLocalItems, w3)"
            by (metis prod.collapse)
          have "items (onAddExisting e w) = items w @ fst (wrapLinks e (map linkTo toAdd) w2)"
            using addExistingBody_loops(3) [OF sel False c, of toAdd w2 newLocalItems w3]
              m Done nonempty wl
            by (simp add: items_onAddExisting_body items_after_update)
          with sel c m Done show ?thesis by blast
        qed
      qed
    qed
  qed
qed

text \<open>The definitions unfolded to evaluate the handler on the example inputs.\<close>

lemmas ex_defs = exEnvPick_def exEnv_def exWorldStore_def exWorld_def exChild_def exFree_def
  exParent_def exEntry_def exItem_def exLink_def exLinkedFrom_def exParentAfterMove_def
  exEnvUpdateFails_def exEnvDialogThrows_def exEnvDialogDeclined_def

lemmas resolver_defs = onAddExisting_def addExistingBody_def newEntriesOf_def
  findExistingLinks_def linkedFromOf_def asArray_def isEntryLinkTo_def removeLinkFromEntry_def
  whenTruthy_def truthy_def getEntryTitle_def titleIn_def getProp_def localeValueOf_def
  notify_def consoleError_def updateFieldValue_def generateUniqueId_def substring_2_11_def
  linkTo_def Let_def

section \<open>Candidates that are already in the collection\<close>

lemma sys_id_linkTo: "sys_id (linkTo x) = entry_id x"
  by (simp add: linkTo_def)

lemma newEntriesOf_fresh:
  "x \<in> set (newEntriesOf w sel) \<Longrightarrow>
     x \<in> set sel \<and> entry_id x \<notin> set (map (\<lambda>i. sys_id (link i)) (items w))"
  by (simp add: newEntriesOf_def)

lemma newEntriesOf_all_present:
  "(\<forall>x\<in>set sel. entry_id x \<in> set (map (\<lambda>i. sys_id (link i)) (items w))) \<Longrightarrow>
     newEntriesOf w sel = []"
  by (simp add: newEntriesOf_def filter_empty_conv)

lemma resolved_are_new:
  assumes "classify e 0 (newEntriesOf w sel) ([], []) w = ((toAdd0, toMove), w1)"
    and "moveLoop e 0 toMove toAdd0 w1 = (Done toAdd, w2)"
  shows "set toAdd \<subseteq> set (newEntriesOf w sel)"
proof -
  have "set toAdd0 \<subseteq> set (newEntriesOf w sel)" "fst ` set toMove \<subseteq> set (newEntriesOf w sel)"
    using classify_subset [of e 0 "newEntriesOf w sel" "([], [])" w] assms(1) by simp_all
  with moveLoop_subset [OF assms(2)] show ?thesis by blast
qed

lemma added_items_are_new:
  assumes "items (onAddExisting e w) = items w @ added"
  shows "\<forall>item\<in>set added. sys_id (link item) \<notin> set (map (\<lambda>i. sys_id (link i)) (items w))"
proof (cases "added = []")
  case True
  then show ?thesis by simp
next
  case False
  with assms have "items (onAddExisting e w) \<noteq> items w" by simp
  with items_onAddExisting [of e w] obtain sel toAdd0 toMove w1 toAdd w2 where
    c: "classify e 0 (newEntriesOf w sel) ([], []) w = ((toAdd0, toMove), w1)"
    and m: "moveLoop e 0 toMove toAdd0 w1 = (Done toAdd, w2)"
    and i: "items (onAddExisting e w) = items w @ fst (wrapLinks e (map linkTo toAdd) w2)"
    by blast
  from i assms have added: "added = fst (wrapLinks e (map linkTo toAdd) w2)" by simp
  show ?thesis
  proof
    fix item
    assume "item \<in> set added"
    then have "link item \<in> set (map link added)" by simp
    then have "link item \<in> set (map linkTo toAdd)"
      by (simp only: added wrapLinks_links)
    then obtain x where x: "x \<in> set toAdd" "link item = linkTo x" by auto
    from x(1) resolved_are_new [OF c m] have "x \<in> set (newEntriesOf w sel)" by blast
    from newEntriesOf_fresh [OF this] x(2)
    show "sys_id (link item) \<notin> set (map (\<lambda>i. sys_id (link i)) (items w))"
      by (simp add: sys_id_linkTo)
  qed
qed

lemma items_onAddExisting_prefix:
  "take (length (items w)) (items (onAddExisting e w)) = items w"
  using items_onAddExisting [of e w] by auto

text \<open>
  C6: the handler only ever appends to the items it started with, and no appended item has
  a target id that one of those items has, so a candidate that is already in the collection
  is not added again. When the picker returns at least one entry and every returned entry
  is already in the collection, the handler shows the warning and changes nothing else:
  items, field value and store are as before.
\<close>

theorem onAddExisting_skips_present:
  "take (length (items w)) (items (onAddExisting e w)) = items w
   \<and> (\<forall>item\<in>set (drop (length (items w)) (items (onAddExisting e w))).
         sys_id (link item) \<notin> set (map (\<lambda>i. sys_id (link i)) (items w)))
   \<and> (\<forall>sel. selectMultipleEntries e = Returns (Some sel) \<and> sel \<noteq> []
         \<and> (\<forall>x\<in>set sel. entry_id x \<in> set (map (\<lambda>i. sys_id (link i)) (items w))) \<longrightarrow>
         onAddExisting e w = w\<lparr>notifications := notifications w @ [Warning AllSelectedAlreadyAdded]\<rparr>)"
proof (intro conjI allI impI)
  show "take (length (items w)) (items (onAddExisting e w)) = items w"
    by (rule items_onAddExisting_prefix)
next
  have "items (onAddExisting e w) =
      items w @ drop (length (items w)) (items (onAddExisting e w))"
    using items_onAddExisting_prefix [of w e] by (metis append_take_drop_id)
  from added_items_are_new [OF this]
  show "\<forall>item\<in>set (drop (length (items w)) (items (onAddExisting e w))).
         sys_id (link item) \<notin> set (map (\<lambda>i. sys_id (link i)) (items w))" .
next
  fix sel
  assume a: "selectMultipleEntries e = Returns (Some sel) \<and> sel \<noteq> []
         \<and> (\<forall>x\<in>set sel. entry_id x \<in> set (map (\<lambda>i. sys_id (link i)) (items w)))"
  then have "newEntriesOf w sel = []" by (simp add: newEntriesOf_all_present)
  with a have "addExistingBody e w = (Done (), notify (Warning AllSelectedAlreadyAdded) w)"
    by (simp add: addExistingBody_warning)
  then show "onAddExisting e w =
      w\<lparr>notifications := notifications w @ [Warning AllSelectedAlreadyAdded]\<rparr>"
    by (simp add: onAddExisting_def notify_def)
qed

theorem onAddExisting_skips_present_witness:
  "selectMultipleEntries (exEnvPick [exEntry ''a'' []]) = Returns (Some [exEntry ''a'' []])
   \<and> [exEntry ''a'' []] \<noteq> []
   \<and> entry_id (exEntry ''a'' []) \<in> set (map (\<lambda>i. sys_id (link i)) (items exWorldStore))
   \<and> onAddExisting (exEnvPick [exEntry ''a'' []]) exWorldStore =
       exWorldStore\<lparr>notifications := [Warning AllSelectedAlreadyAdded]\<rparr>
   \<and> items (onAddExisting (exEnvPick [exEntry ''a'' []]) exWorldStore) = [exItem ''k0'' ''a'']"
proof -
  have s: "selectMultipleEntries (exEnvPick [exEntry ''a'' []]) = Returns (Some [exEntry ''a'' []])"
    by (simp add: exEnvPick_def)
  have i: "items exWorldStore = [exItem ''k0'' ''a'']" "notifications exWorldStore = []"
    by (simp_all add: exWorldStore_def exWorld_def)
  have p: "\<forall>x\<in>set [exEntry ''a'' []].
      entry_id x \<in> set (map (\<lambda>i. sys_id (link i)) (items exWorldStore))"
    by (simp add: i exEntry_def exItem_def exLink_def)
  from onAddExisting_skips_present [of exWorldStore "exEnvPick [exEntry ''a'' []]"] s p
  have r: "onAddExisting (exEnvPick [exEntry ''a'' []]) exWorldStore =
      exWorldStore\<lparr>notifications := notifications exWorldStore @ [Warning AllSelectedAlreadyAdded]\<rparr>"
    by blast
  have "entry_id (exEntry ''a'' []) \<in> set (map (\<lambda>i. sys_id (link i)) (items exWorldStore))"
    using p by simp
  with s r i show ?thesis by simp
qed

section \<open>Moving an entry from another parent\<close>






















section \<open>A confirmation dialog that fails\<close>

text \<open>
  C4, as stated, on a selection of \<open>f\<close>, which nothing links to, and \<open>c\<close>, which \<open>p\<close> links
  to: when the dialog for \<open>c\<close> is declined, \<open>f\<close> is appended; when it fails, nothing is
  appended and the error is logged by the handler.
\<close>

theorem dialog_failure_counterexample:
  "openConfirm exEnvDialogDeclined 0 = Returns False
   \<and> items (onAddExisting exEnvDialogDeclined exWorldStore) =
       [exItem ''k0'' ''a'', exItem ''k'' ''f'']
   \<and> openConfirm exEnvDialogThrows 0 = Throws
   \<and> items (onAddExisting exEnvDialogThrows exWorldStore) = [exItem ''k0'' ''a'']
   \<and> fieldValue (onAddExisting exEnvDialogThrows exWorldStore) = Some [exLink ''a'']
   \<and> console (onAddExisting exEnvDialogThrows exWorldStore) = [ErrorInAddExisting]"
  by (simp add: ex_defs resolver_defs)

text \<open>
  C4, amended: a dialog that returns false skips its candidate and the loop goes on with the
  remaining candidates, nothing else changed. A dialog that fails leaves the loop at once.
  When the dialog of any of the entries to move fails, the handler logs the error and stops:
  no remaining candidate is processed, nothing is appended, and the items and the field
  value are as they were before the picker was opened.
\<close>

theorem dialog_failure_aborts_batch:
  "(openConfirm e k = Returns False \<longrightarrow>
      moveLoop e k ((c, lf) # rest) acc w = moveLoop e (Suc k) rest acc w)
   \<and> (openConfirm e k = Throws \<longrightarrow> moveLoop e k ((c, lf) # rest) acc w = (Raised, w))
   \<and> (\<forall>sel toAdd0 toMove w1 j.
         selectMultipleEntries e = Returns (Some sel)
         \<and> classify e 0 (newEntriesOf w sel) ([], []) w = ((toAdd0, toMove), w1)
         \<and> j < length toMove \<and> openConfirm e j = Throws \<longrightarrow>
         items (onAddExisting e w) = items w
         \<and> fieldValue (onAddExisting e w) = fieldValue w
         \<and> (\<exists>w2. moveLoop e 0 toMove toAdd0 w1 = (Raised, w2)
                \<and> onAddExisting e w = w2\<lparr>console := console w2 @ [ErrorInAddExisting]\<rparr>))"
proof (intro conjI impI allI)
  assume "openConfirm e k = Returns False"
  then show "moveLoop e k ((c, lf) # rest) acc w = moveLoop e (Suc k) rest acc w"
    by simp
next
  assume "openConfirm e k = Throws"
  then show "moveLoop e k ((c, lf) # rest) acc w = (Raised, w)"
    by simp
next
  fix sel toAdd0 toMove w1 j
  assume a: "selectMultipleEntries e = Returns (Some sel)
         \<and> classify e 0 (newEntriesOf w sel) ([], []) w = ((toAdd0, toMove), w1)
         \<and> j < length toMove \<and> openConfirm e j = Throws"
  then have sel: "selectMultipleEntries e = Returns (Some sel)"
    and c: "classify e 0 (newEntriesOf w sel) ([], []) w = ((toAdd0, toMove), w1)"
    and j: "j < length toMove" "openConfirm e (0 + j) = Throws"
    by simp_all
  from moveLoop_raises [OF j, of toAdd0 w1] obtain w2 where
    m: "moveLoop e 0 toMove toAdd0 w1 = (Raised, w2)"
    by (metis prod.collapse)
  have "newEntriesOf w sel \<noteq> []"
  proof
    assume "newEntriesOf w sel = []"
    with c have "toMove = []" by simp
    with j show False by simp
  qed
  then have nw: "\<not> (newEntriesOf w sel = [] \<and> sel \<noteq> [])" by simp
  have body: "addExistingBody e w = (Raised, w2)"
    using addExistingBody_loops(1) [OF sel nw c m] .
  then have r: "onAddExisting e w = w2\<lparr>console := console w2 @ [ErrorInAddExisting]\<rparr>"
    by (simp add: onAddExisting_def consoleError_def)
  have "items w1 = items w" "fieldValue w1 = fieldValue w"
    using classify_frame [of e 0 "newEntriesOf w sel" "([], [])" w] c by simp_all
  then have frame: "items w2 = items w" "fieldValue w2 = fieldValue w"
    using moveLoop_frame [of e 0 toMove toAdd0 w1] m by simp_all
  from r frame m
  show "items (onAddExisting e w) = items w" "fieldValue (onAddExisting e w) = fieldValue w"
    "\<exists>w2. moveLoop e 0 toMove toAdd0 w1 = (Raised, w2)
        \<and> onAddExisting e w = w2\<lparr>console := console w2 @ [ErrorInAddExisting]\<rparr>"
    by simp_all
qed

theorem dialog_failure_aborts_batch_witness:
  "selectMultipleEntries exEnvDialogThrows = Returns (Some [exFree, exChild])
   \<and> classify exEnvDialogThrows 0 (newEntriesOf exWorldStore [exFree, exChild]) ([], [])
        exWorldStore = (([exFree], [(exChild, exLinkedFrom)]), exWorldStore)
   \<and> (0::nat) < length [(exChild, exLinkedFrom)]
   \<and> openConfirm exEnvDialogThrows 0 = Throws
   \<and> items (onAddExisting exEnvDialogThrows exWorldStore) = items exWorldStore
   \<and> fieldValue (onAddExisting exEnvDialogThrows exWorldStore) = fieldValue exWorldStore"
proof -
  have s: "selectMultipleEntries exEnvDialogThrows = Returns (Some [exFree, exChild])"
    and o: "openConfirm exEnvDialogThrows 0 = Throws"
    by (simp_all add: ex_defs)
  have c: "classify exEnvDialogThrows 0 (newEntriesOf exWorldStore [exFree, exChild]) ([], [])
        exWorldStore = (([exFree], [(exChild, exLinkedFrom)]), exWorldStore)"
    by (simp add: ex_defs resolver_defs)
  have l: "(0::nat) < length [(exChild, exLinkedFrom)]" by simp
  from dialog_failure_aborts_batch [of exEnvDialogThrows 0 exChild exLinkedFrom "[]" "[]"
      exWorldStore] s c l o
  have "items (onAddExisting exEnvDialogThrows exWorldStore) = items exWorldStore
      \<and> fieldValue (onAddExisting exEnvDialogThrows exWorldStore) = fieldValue exWorldStore"
    by blast
  with s c l o show ?thesis by (intro conjI) simp_all
qed

text \<open>
  The same abort after an earlier candidate was moved: \<open>c\<close> has been removed from its old
  parent \<open>p\<close> when the dialog for \<open>d\<close> fails, and it is not appended to the collection.
\<close>

lemma dialog_failure_after_move_example:
  "store (onAddExisting exEnvSecondDialogThrows exWorldStore) ''p'' = Some exParentAfterMove
   \<and> items (onAddExisting exEnvSecondDialogThrows exWorldStore) = [exItem ''k0'' ''a'']
   \<and> fieldValue (onAddExisting exEnvSecondDialogThrows exWorldStore) = Some [exLink ''a'']
   \<and> notifications (onAddExisting exEnvSecondDialogThrows exWorldStore) =
       [Success (MovedFrom (JStr ''Child'') (JStr ''Untitled''))]
   \<and> console (onAddExisting exEnvSecondDialogThrows exWorldStore) = [ErrorInAddExisting]"
  by (simp add: exEnvSecondDialogThrows_def ex_defs resolver_defs)

end
